theory Spec2Isabelle
  imports Complex_Main
begin

section \<open>Numbers and constants\<close>

text \<open>
  The program computes with JavaScript numbers. They are modelled as real numbers: the
  comparisons, \<open>Math.max\<close>, \<open>Math.min\<close>, negation and assignments the properties
  below rest on are exact on finite numbers, and the rounding of sums and products is
  not modelled. A value that may be \<open>undefined\<close> is an \<open>option\<close>.
\<close>

definition WORLD_HEIGHT :: real where
  "WORLD_HEIGHT = 720"

definition FLOOR_Y :: real where
  "FLOOR_Y = WORLD_HEIGHT - 120"

definition CEILING_Y :: real where
  "CEILING_Y = 120"

definition PLAYER_SIZE :: real where
  "PLAYER_SIZE = 64"

definition MAX_DELTA_TIME :: real where
  "MAX_DELTA_TIME = 1 / 30"

text \<open>The operator \<open>a ?? b\<close>: \<open>b\<close> when \<open>a\<close> is \<open>undefined\<close>, else \<open>a\<close>.\<close>

definition nullish :: "'a option \<Rightarrow> 'a \<Rightarrow> 'a" where
  "nullish a b = (case a of None \<Rightarrow> b | Some v \<Rightarrow> v)"

section \<open>Input\<close>

record input =
  jumpQueue :: nat
  jumpPressedThisFrame :: bool
  jumpHeld :: bool
  pointerHeld :: bool
  restartRequested :: bool

definition handleJumpPress :: "input \<Rightarrow> input" where
  "handleJumpPress i = i\<lparr>jumpQueue := jumpQueue i + 1, jumpPressedThisFrame := True\<rparr>"

definition consumeJumpRequest :: "input \<Rightarrow> bool \<times> input" where
  "consumeJumpRequest i =
     (if jumpQueue i > 0 then (True, i\<lparr>jumpQueue := 0\<rparr>) else (False, i))"

definition isJumpHeld :: "input \<Rightarrow> bool" where
  "isJumpHeld i = (jumpHeld i \<or> pointerHeld i)"

definition didPressJumpThisFrame :: "input \<Rightarrow> bool" where
  "didPressJumpThisFrame i = jumpPressedThisFrame i"

definition finalizeFrame :: "input \<Rightarrow> input" where
  "finalizeFrame i = i\<lparr>jumpPressedThisFrame := False\<rparr>"

section \<open>Geometry\<close>

record rectangle =
  rect_x :: real
  rect_y :: real
  rect_width :: real
  rect_height :: real

definition Rectangle :: "real \<Rightarrow> real \<Rightarrow> real \<Rightarrow> real \<Rightarrow> rectangle" where
  "Rectangle x y w h = \<lparr>rect_x = x, rect_y = y, rect_width = w, rect_height = h\<rparr>"

definition rect_left :: "rectangle \<Rightarrow> real" where
  "rect_left r = rect_x r"

definition rect_right :: "rectangle \<Rightarrow> real" where
  "rect_right r = rect_x r + rect_width r"

definition rect_top :: "rectangle \<Rightarrow> real" where
  "rect_top r = rect_y r"

definition rect_bottom :: "rectangle \<Rightarrow> real" where
  "rect_bottom r = rect_y r + rect_height r"

definition rect_centerX :: "rectangle \<Rightarrow> real" where
  "rect_centerX r = rect_x r + rect_width r / 2"

definition rect_centerY :: "rectangle \<Rightarrow> real" where
  "rect_centerY r = rect_y r + rect_height r / 2"

definition intersects :: "rectangle \<Rightarrow> rectangle \<Rightarrow> bool" where
  "intersects a b =
     (\<not> (rect_right a \<le> rect_left b \<or>
         rect_left a \<ge> rect_right b \<or>
         rect_bottom a \<le> rect_top b \<or>
         rect_top a \<ge> rect_bottom b))"

record circle =
  circle_x :: real
  circle_y :: real
  circle_radius :: real

definition intersectsRect :: "circle \<Rightarrow> rectangle \<Rightarrow> bool" where
  "intersectsRect c r =
     (let closestX = max (rect_left r) (min (circle_x c) (rect_right r));
          closestY = max (rect_top r) (min (circle_y c) (rect_bottom r));
          dx = circle_x c - closestX;
          dy = circle_y c - closestY
      in dx * dx + dy * dy \<le> circle_radius c * circle_radius c)"

section \<open>Player\<close>

record player =
  anchorX :: real
  player_size :: real
  position_x :: real
  position_y :: real
  previousPosition_x :: real
  previousPosition_y :: real
  velocity_x :: real
  velocity_y :: real
  gravityDirection :: real
  gravity :: real
  maxFallSpeed :: real
  maxRiseSpeed :: real
  jumpStrength :: real
  coyoteTime :: real
  jumpBufferTime :: real
  coyoteTimer :: real
  jumpBuffer :: real
  isGrounded :: bool
  isAlive :: bool
  boostTimer :: real
  speedMultiplier :: real
  gravityScaleDuringBoost :: real
  respawnY :: real

text \<open>The player the constructor builds (the asset table, used for drawing only, is left out).\<close>

definition new_Player :: player where
  "new_Player =
     \<lparr>anchorX = 260, player_size = PLAYER_SIZE,
      position_x = 260, position_y = FLOOR_Y - PLAYER_SIZE / 2,
      previousPosition_x = 260, previousPosition_y = FLOOR_Y - PLAYER_SIZE / 2,
      velocity_x = 0, velocity_y = 0,
      gravityDirection = 1, gravity = 2200, maxFallSpeed = 1800, maxRiseSpeed = 1200,
      jumpStrength = 900, coyoteTime = 0.08, jumpBufferTime = 0.12,
      coyoteTimer = 0, jumpBuffer = 0, isGrounded = False, isAlive = True,
      boostTimer = 0, speedMultiplier = 1, gravityScaleDuringBoost = 0.65,
      respawnY = FLOOR_Y - PLAYER_SIZE / 2\<rparr>"

definition halfSize :: "player \<Rightarrow> real" where
  "halfSize p = player_size p / 2"

definition Player_reset :: "player \<Rightarrow> player" where
  "Player_reset p =
     p\<lparr>position_x := anchorX p, position_y := FLOOR_Y - player_size p / 2,
       previousPosition_x := anchorX p, previousPosition_y := FLOOR_Y - player_size p / 2,
       velocity_x := 0, velocity_y := 0,
       gravityDirection := 1, isGrounded := False, isAlive := True,
       coyoteTimer := 0, jumpBuffer := 0, boostTimer := 0, speedMultiplier := 1\<rparr>"

definition getBounds :: "player \<Rightarrow> rectangle" where
  "getBounds p =
     Rectangle (position_x p - halfSize p) (position_y p - halfSize p)
       (player_size p) (player_size p)"

definition getPreviousBounds :: "player \<Rightarrow> rectangle" where
  "getPreviousBounds p =
     Rectangle (previousPosition_x p - halfSize p) (previousPosition_y p - halfSize p)
       (player_size p) (player_size p)"

text \<open>
  \<open>Player.update(dt, input)\<close> is written in the order of its statements, in three
  parts. First the motion: the previous position is saved, gravity accelerates
  \<open>velocity.y\<close>, the velocity is clamped and \<open>position.y\<close> advances.
\<close>

definition integrate :: "real \<Rightarrow> player \<Rightarrow> player" where
  "integrate dt p =
     (let p2 = p\<lparr>previousPosition_x := position_x p, previousPosition_y := position_y p\<rparr>;
          gravityScale = (if boostTimer p2 > 0 then gravityScaleDuringBoost p2 else 1);
          gravityForce = gravity p2 * gravityDirection p2 * gravityScale;
          p3 = p2\<lparr>velocity_y := velocity_y p2 + gravityForce * dt\<rparr>;
          p4 = p3\<lparr>velocity_y :=
                    min (maxFallSpeed p3) (max (- maxRiseSpeed p3) (velocity_y p3))\<rparr>
      in p4\<lparr>position_y := position_y p4 + velocity_y p4 * dt\<rparr>)"

text \<open>Then the jump buffer and the coyote timer run down.\<close>

definition decayTimers :: "real \<Rightarrow> player \<Rightarrow> player" where
  "decayTimers dt p =
     (let p6 = p\<lparr>jumpBuffer := max 0 (jumpBuffer p - dt)\<rparr>
      in p6\<lparr>coyoteTimer := max 0 (coyoteTimer p6 - dt)\<rparr>)"

text \<open>Last the boost timer runs down, and the speed multiplier is reset when it reaches 0.\<close>

definition decayBoost :: "real \<Rightarrow> player \<Rightarrow> player" where
  "decayBoost dt p =
     (if boostTimer p > 0
      then (let p8 = p\<lparr>boostTimer := max 0 (boostTimer p - dt)\<rparr>
            in if boostTimer p8 = 0 then p8\<lparr>speedMultiplier := 1\<rparr> else p8)
      else p)"

text \<open>
  The whole of \<open>Player.update\<close>: nothing for a dead player; else the jump request is
  consumed (so the input is returned with the player) and buffered, and the three parts
  above follow.
\<close>

definition Player_update :: "real \<Rightarrow> input \<Rightarrow> player \<Rightarrow> player \<times> input" where
  "Player_update dt inp p =
     (if \<not> isAlive p then (p, inp)
      else
        let (requested, inp1) = consumeJumpRequest inp;
            p1 = (if requested then p\<lparr>jumpBuffer := jumpBufferTime p\<rparr> else p)
        in (decayBoost dt (decayTimers dt (integrate dt p1)), inp1))"

definition performJump :: "real \<Rightarrow> player \<Rightarrow> player" where
  "performJump strength p =
     p\<lparr>velocity_y := - strength * gravityDirection p, isGrounded := False, coyoteTimer := 0\<rparr>"

definition performOrbJump :: "real \<Rightarrow> player \<Rightarrow> player" where
  "performOrbJump pow p =
     p\<lparr>velocity_y := - pow * gravityDirection p, isGrounded := False, coyoteTimer := 0\<rparr>"

definition postResolve :: "player \<Rightarrow> player" where
  "postResolve p =
     (if \<not> isAlive p then p
      else if jumpBuffer p > 0 \<and> (isGrounded p \<or> coyoteTimer p > 0)
        then (performJump (jumpStrength p) p)\<lparr>jumpBuffer := 0\<rparr>
        else p)"

definition land :: "real \<Rightarrow> player \<Rightarrow> player" where
  "land surfaceY p =
     (let p1 = (if gravityDirection p = 1
                then p\<lparr>position_y := surfaceY - halfSize p\<rparr>
                else p\<lparr>position_y := surfaceY + halfSize p\<rparr>)
      in p1\<lparr>velocity_y := 0, isGrounded := True, coyoteTimer := coyoteTime p1\<rparr>)"

definition die :: "player \<Rightarrow> player" where
  "die p = p\<lparr>isAlive := False\<rparr>"

text \<open>The argument object of \<open>applyBoost\<close>; each field may be absent.\<close>

record boost =
  multiplier :: "real option"
  duration :: "real option"
  gravityScale :: "real option"

text \<open>
  \<open>if (gravityScale)\<close> holds for a number that is neither absent nor zero.
\<close>

definition applyBoost :: "boost \<Rightarrow> player \<Rightarrow> player" where
  "applyBoost b p =
     (let p1 = p\<lparr>speedMultiplier := max (nullish (multiplier b) 1) (speedMultiplier p)\<rparr>;
          p2 = p1\<lparr>boostTimer := max (nullish (duration b) 0) (boostTimer p1)\<rparr>
      in case gravityScale b of
           None \<Rightarrow> p2
         | Some g \<Rightarrow> if g \<noteq> 0 then p2\<lparr>gravityScaleDuringBoost := g\<rparr> else p2)"

definition flipGravity :: "real option \<Rightarrow> player \<Rightarrow> player" where
  "flipGravity targetDirection p =
     (let newDirection = nullish targetDirection (- gravityDirection p)
      in if newDirection = gravityDirection p then p
         else
           let p1 = p\<lparr>gravityDirection := newDirection, velocity_y := 0\<rparr>;
               p2 = (if newDirection = 1
                     then p1\<lparr>position_y := min (position_y p1) (FLOOR_Y - halfSize p1)\<rparr>
                     else p1\<lparr>position_y := max (position_y p1) (CEILING_Y + halfSize p1)\<rparr>)
           in p2\<lparr>isGrounded := False, coyoteTimer := 0\<rparr>)"


section \<open>Level segments\<close>

text \<open>The free-form \<open>properties\<close> object of an entity: every key may be absent.\<close>

record properties =
  prop_multiplier :: "real option"
  prop_duration :: "real option"
  prop_gravityScale :: "real option"
  prop_power :: "real option"
  prop_cooldown :: "real option"
  prop_gravity :: "real option"

definition no_properties :: properties where
  "no_properties =
     \<lparr>prop_multiplier = None, prop_duration = None, prop_gravityScale = None,
      prop_power = None, prop_cooldown = None, prop_gravity = None\<rparr>"

text \<open>An entity blueprint of a segment template.\<close>

record blueprint =
  bp_type :: string
  bp_x :: real
  bp_y :: real
  bp_width :: "real option"
  bp_height :: "real option"
  bp_radius :: "real option"
  bp_orientation :: "string option"
  bp_properties :: "properties option"

record segment_entity =
  e_type :: string
  e_x :: real
  e_y :: real
  e_width :: real
  e_height :: real
  e_radius :: real
  e_orientation :: string
  e_properties :: properties
  e_cooldown :: real

definition new_SegmentEntity :: "blueprint \<Rightarrow> segment_entity" where
  "new_SegmentEntity t =
     \<lparr>e_type = bp_type t, e_x = bp_x t, e_y = bp_y t,
      e_width = nullish (bp_width t) 0,
      e_height = nullish (bp_height t) 0,
      e_radius = nullish (bp_radius t) 0,
      e_orientation = nullish (bp_orientation t) ''up'',
      e_properties = (case bp_properties t of None \<Rightarrow> no_properties | Some pr \<Rightarrow> pr),
      e_cooldown = 0\<rparr>"

definition SegmentEntity_reset :: "segment_entity \<Rightarrow> segment_entity" where
  "SegmentEntity_reset e = e\<lparr>e_cooldown := 0\<rparr>"

definition updateCooldown :: "real \<Rightarrow> segment_entity \<Rightarrow> segment_entity" where
  "updateCooldown dt e =
     (if e_cooldown e > 0 then e\<lparr>e_cooldown := max 0 (e_cooldown e - dt)\<rparr> else e)"

record segment_template =
  tpl_width :: real
  tpl_entities :: "blueprint list"

record level_segment =
  template :: segment_template
  entities :: "segment_entity list"
  offset :: real

definition new_LevelSegment :: "segment_template \<Rightarrow> level_segment" where
  "new_LevelSegment t =
     \<lparr>template = t, entities = map new_SegmentEntity (tpl_entities t), offset = 0\<rparr>"

definition LevelSegment_reset :: "real \<Rightarrow> level_segment \<Rightarrow> level_segment" where
  "LevelSegment_reset off s = s\<lparr>offset := off, entities := map SegmentEntity_reset (entities s)\<rparr>"

definition segment_end :: "level_segment \<Rightarrow> real" where
  "segment_end s = offset s + tpl_width (template s)"

subsection \<open>The segment library\<close>

definition rect_bp :: "string \<Rightarrow> real \<Rightarrow> real \<Rightarrow> real \<Rightarrow> real \<Rightarrow> blueprint" where
  "rect_bp ty x y w h =
     \<lparr>bp_type = ty, bp_x = x, bp_y = y, bp_width = Some w, bp_height = Some h,
      bp_radius = None, bp_orientation = None, bp_properties = None\<rparr>"

definition platform_bp :: "real \<Rightarrow> real \<Rightarrow> real \<Rightarrow> real \<Rightarrow> blueprint" where
  "platform_bp x y w h = rect_bp ''platform'' x y w h"

definition spike_bp :: "real \<Rightarrow> real \<Rightarrow> real \<Rightarrow> real \<Rightarrow> string \<Rightarrow> blueprint" where
  "spike_bp x y w h ori = (rect_bp ''spike'' x y w h)\<lparr>bp_orientation := Some ori\<rparr>"

definition booster_bp :: "real \<Rightarrow> real \<Rightarrow> real \<Rightarrow> real \<Rightarrow> real \<Rightarrow> real \<Rightarrow> real \<Rightarrow> blueprint" where
  "booster_bp x y w h m d g =
     (rect_bp ''booster'' x y w h)
       \<lparr>bp_properties := Some (no_properties
          \<lparr>prop_multiplier := Some m, prop_duration := Some d, prop_gravityScale := Some g\<rparr>)\<rparr>"

definition orb_bp :: "real \<Rightarrow> real \<Rightarrow> real \<Rightarrow> real \<Rightarrow> real \<Rightarrow> blueprint" where
  "orb_bp x y r pw cd =
     \<lparr>bp_type = ''orb'', bp_x = x, bp_y = y, bp_width = None, bp_height = None,
      bp_radius = Some r, bp_orientation = None,
      bp_properties = Some (no_properties\<lparr>prop_power := Some pw, prop_cooldown := Some cd\<rparr>)\<rparr>"

definition portal_bp :: "real \<Rightarrow> real \<Rightarrow> real \<Rightarrow> real \<Rightarrow> real \<Rightarrow> real \<Rightarrow> blueprint" where
  "portal_bp x y w h g cd =
     (rect_bp ''portal'' x y w h)
       \<lparr>bp_properties := Some (no_properties\<lparr>prop_gravity := Some g, prop_cooldown := Some cd\<rparr>)\<rparr>"

definition SEGMENT_LIBRARY :: "segment_template list" where
  "SEGMENT_LIBRARY =
     [\<lparr>tpl_width = 1400, tpl_entities =
        [platform_bp 280 (FLOOR_Y - 160) 200 32,
         platform_bp 620 (FLOOR_Y - 220) 220 32,
         platform_bp 940 (FLOOR_Y - 320) 180 32,
         spike_bp 540 (FLOOR_Y - 64) 64 64 ''up'',
         spike_bp 860 (FLOOR_Y - 64) 64 64 ''up'',
         booster_bp 320 (FLOOR_Y - 120) 80 80 1.35 1.2 0.55,
         orb_bp 720 (FLOOR_Y - 240) 28 1050 0.35,
         portal_bp 1120 (FLOOR_Y - 200) 64 200 (- 1) 1]\<rparr>,
      \<lparr>tpl_width = 1200, tpl_entities =
        [platform_bp 120 (CEILING_Y + 120) 240 32,
         platform_bp 480 (CEILING_Y + 180) 200 32,
         platform_bp 820 (CEILING_Y + 130) 280 32,
         spike_bp 360 CEILING_Y 60 60 ''down'',
         spike_bp 700 CEILING_Y 60 60 ''down'',
         orb_bp 520 (CEILING_Y + 220) 26 980 0.4,
         booster_bp 900 (CEILING_Y + 150) 76 76 1.2 1.1 0.75,
         portal_bp 1000 CEILING_Y 60 180 1 1]\<rparr>,
      \<lparr>tpl_width = 1360, tpl_entities =
        [platform_bp 180 (FLOOR_Y - 140) 200 32,
         platform_bp 520 (FLOOR_Y - 220) 240 32,
         platform_bp 880 (FLOOR_Y - 160) 200 32,
         platform_bp 1080 (FLOOR_Y - 260) 180 32,
         spike_bp 420 (FLOOR_Y - 64) 64 64 ''up'',
         spike_bp 760 (FLOOR_Y - 64) 64 64 ''up'',
         spike_bp 1020 (FLOOR_Y - 64) 64 64 ''up'',
         orb_bp 640 (FLOOR_Y - 260) 30 1100 0.3,
         booster_bp 260 (FLOOR_Y - 120) 80 80 1.25 1.4 0.6]\<rparr>,
      \<lparr>tpl_width = 1280, tpl_entities =
        [platform_bp 160 (FLOOR_Y - 200) 180 32,
         platform_bp 480 (FLOOR_Y - 280) 200 32,
         platform_bp 800 (FLOOR_Y - 220) 220 32,
         platform_bp 1080 (FLOOR_Y - 320) 160 32,
         orb_bp 380 (FLOOR_Y - 320) 26 1120 0.35,
         orb_bp 960 (FLOOR_Y - 360) 28 1180 0.35,
         spike_bp 560 (FLOOR_Y - 64) 64 64 ''up'',
         spike_bp 900 (FLOOR_Y - 64) 64 64 ''up'',
         booster_bp 680 (FLOOR_Y - 120) 80 80 1.3 1.3 0.6]\<rparr>]"

section \<open>Level\<close>

text \<open>
  Reading a property of \<open>undefined\<close> throws a \<open>TypeError\<close>; it happens where a
  template is looked up outside the template list.
\<close>

datatype error = TypeError

record level =
  templates :: "segment_template list"
  activeSegments :: "level_segment list"
  baseSpeed :: real
  currentSpeed :: real
  scrollX :: real
  viewportWorldWidth :: real
  recycleMargin :: real

definition new_Level :: "segment_template list \<Rightarrow> level" where
  "new_Level ts =
     \<lparr>templates = ts, activeSegments = [], baseSpeed = 360, currentSpeed = 360,
      scrollX = 0, viewportWorldWidth = 1280, recycleMargin = 640\<rparr>"

definition setViewport :: "real \<Rightarrow> level \<Rightarrow> level" where
  "setViewport worldWidth l =
     l\<lparr>viewportWorldWidth := worldWidth, recycleMargin := max 400 (worldWidth * 0.75)\<rparr>"

text \<open>
  The loop of \<open>Level.reset\<close>, from \<open>index\<close> on. With no template,
  \<open>index % 0\<close> is \<open>NaN\<close>, the template read is \<open>undefined\<close> and the segment's
  constructor throws.
\<close>

function reset_loop ::
  "segment_template list \<Rightarrow> nat \<Rightarrow> real \<Rightarrow> level_segment list \<Rightarrow> error + level_segment list"
where
  "reset_loop ts index off segs =
     (if index < 4
      then (if ts = [] then Inl TypeError
            else
              let t = ts ! (index mod length ts);
                  segment = LevelSegment_reset off (new_LevelSegment t)
              in reset_loop ts (index + 1) (off + tpl_width t) (segs @ [segment]))
      else Inr segs)"
  by pat_completeness auto
termination
  by (relation "measure (\<lambda>(ts, index, off, segs). 4 - index)") auto

declare reset_loop.simps [simp del]

definition Level_reset :: "level \<Rightarrow> error + level" where
  "Level_reset l =
     (let l1 = l\<lparr>scrollX := 0, currentSpeed := baseSpeed l\<rparr>
      in case reset_loop (templates l1) 0 0 [] of
           Inl e \<Rightarrow> Inl e
         | Inr segs \<Rightarrow> Inr (l1\<lparr>activeSegments := segs\<rparr>))"

text \<open>
  \<open>pickNextTemplate\<close>, given the value \<open>r\<close> that \<open>Math.random()\<close> returns:
  \<open>undefined\<close> (here \<open>None\<close>) when the index falls outside the list.
\<close>

definition pickNextTemplate :: "segment_template list \<Rightarrow> real \<Rightarrow> segment_template option" where
  "pickNextTemplate ts r =
     (let randomIndex = \<lfloor>r * real (length ts)\<rfloor>
      in if 0 \<le> randomIndex \<and> nat randomIndex < length ts
         then Some (ts ! nat randomIndex) else None)"

text \<open>
  The recycling loop of \<open>Level.update\<close>. The values of \<open>Math.random()\<close> are the
  sequence \<open>rng\<close>, read from position \<open>k\<close> on. \<open>lastSegment\<close> is always the object
  at the end of the array: the last element at first, the recycled segment, pushed to the
  end, afterwards. When the array holds one segment, the segment shifted out is that same
  object, so \<open>lastSegment.end\<close> is read after its template has been replaced. The loop
  need not end, so not returning is \<open>None\<close>.
\<close>

partial_function (option) recycle ::
  "segment_template list \<Rightarrow> real \<Rightarrow> (nat \<Rightarrow> real) \<Rightarrow> nat \<Rightarrow> level_segment list
     \<Rightarrow> (error + level_segment list \<times> nat) option"
where
  "recycle ts recycleThreshold rng k segs =
     (case segs of
        [] \<Rightarrow> Some (Inr (segs, k))
      | first # rest \<Rightarrow>
          if segment_end first < recycleThreshold
          then (case pickNextTemplate ts (rng k) of
                  None \<Rightarrow> Some (Inl TypeError)
                | Some t \<Rightarrow>
                    let recycled = first\<lparr>template := t,
                                         entities := map new_SegmentEntity (tpl_entities t)\<rparr>;
                        lastEnd = (if rest = [] then segment_end recycled
                                   else segment_end (last rest))
                    in recycle ts recycleThreshold rng (Suc k)
                         (rest @ [LevelSegment_reset lastEnd recycled]))
          else Some (Inr (segs, k)))"

definition Level_update ::
  "real \<Rightarrow> player \<Rightarrow> (nat \<Rightarrow> real) \<Rightarrow> nat \<Rightarrow> level \<Rightarrow> (error + level \<times> nat) option"
where
  "Level_update dt p rng k l =
     (let targetSpeed = baseSpeed l * speedMultiplier p;
          smoothing = 1 - exp (- dt * 6);
          l1 = l\<lparr>currentSpeed := currentSpeed l + (targetSpeed - currentSpeed l) * smoothing\<rparr>;
          l2 = l1\<lparr>scrollX := scrollX l1 + currentSpeed l1 * dt\<rparr>;
          recycleThreshold = scrollX l2 - recycleMargin l2
      in case recycle (templates l2) recycleThreshold rng k (activeSegments l2) of
           None \<Rightarrow> None
         | Some (Inl e) \<Rightarrow> Some (Inl e)
         | Some (Inr (segs, k')) \<Rightarrow> Some (Inr (l2\<lparr>activeSegments := segs\<rparr>, k')))"

section \<open>Collision resolver\<close>

definition entityRect :: "real \<Rightarrow> segment_entity \<Rightarrow> rectangle" where
  "entityRect off entity =
     Rectangle (off + e_x entity) (e_y entity) (e_width entity) (e_height entity)"

text \<open>
  \<open>#resolvePlatform\<close> writes the new bounds into \<open>currentRect\<close>, the object the
  caller holds as \<open>playerRect\<close>; the player and that rectangle are returned.
\<close>

definition resolvePlatform ::
  "segment_entity \<Rightarrow> real \<Rightarrow> rectangle \<Rightarrow> player \<times> rectangle \<Rightarrow> player \<times> rectangle"
where
  "resolvePlatform entity off previousRect st =
     (let (p, currentRect) = st;
          rect = entityRect off entity
      in if \<not> intersects currentRect rect then (p, currentRect)
         else if gravityDirection p = 1
           then (let wasAbove =
                       (rect_bottom previousRect \<le> rect_top rect + \<bar>velocity_y p\<bar> * 0.02)
                 in if wasAbove \<and> rect_bottom currentRect \<ge> rect_top rect
                    then (let p' = land (rect_top rect) p in (p', getBounds p'))
                    else (p, currentRect))
           else (let wasBelow =
                       (rect_top previousRect \<ge> rect_bottom rect - \<bar>velocity_y p\<bar> * 0.02)
                 in if wasBelow \<and> rect_top currentRect \<le> rect_bottom rect
                    then (let p' = land (rect_bottom rect) p in (p', getBounds p'))
                    else (p, currentRect)))"

definition checkEntityOverlap :: "rectangle \<Rightarrow> real \<Rightarrow> segment_entity \<Rightarrow> bool" where
  "checkEntityOverlap playerRect off entity = intersects playerRect (entityRect off entity)"

definition checkOrbCollision :: "rectangle \<Rightarrow> real \<Rightarrow> segment_entity \<Rightarrow> bool" where
  "checkOrbCollision playerRect off entity =
     intersectsRect
       \<lparr>circle_x = off + e_x entity, circle_y = e_y entity, circle_radius = e_radius entity\<rparr>
       playerRect"

text \<open>
  \<open>#checkSpikeCollision\<close>. For a rectangle of width 0 the quotient \<open>relativeX\<close> is
  not a finite number: it is \<open>NaN\<close> when the player's centre is on the rectangle's left
  edge, else an infinity. \<open>Math.abs(relativeX - 0.5) * rect.height * 2\<close> is then
  \<open>+Infinity\<close> for a positive height, \<open>-Infinity\<close> for a negative one and \<open>NaN\<close>
  otherwise, and the final comparison, in either orientation, holds for \<open>+Infinity\<close>
  only. That case is written out, since the quotient of the reals is 0 there.
\<close>

definition checkSpikeCollision :: "rectangle \<Rightarrow> real \<Rightarrow> segment_entity \<Rightarrow> bool" where
  "checkSpikeCollision playerRect off entity =
     (let rect = entityRect off entity
      in if \<not> intersects playerRect rect then False
         else if rect_width rect = 0
           then rect_centerX playerRect - rect_left rect \<noteq> 0 \<and> rect_height rect > 0
           else
             let relativeX = (rect_centerX playerRect - rect_left rect) / rect_width rect
             in if e_orientation entity = ''up''
                then (let spikeY = rect_bottom rect - \<bar>relativeX - 0.5\<bar> * rect_height rect * 2
                      in rect_bottom playerRect \<ge> spikeY)
                else (let spikeY = rect_top rect + \<bar>relativeX - 0.5\<bar> * rect_height rect * 2
                      in rect_top playerRect \<le> spikeY))"

text \<open>\<open>a ?? b\<close> where \<open>b\<close> may be absent as well.\<close>

definition nullish_opt :: "'a option \<Rightarrow> 'a option \<Rightarrow> 'a option" where
  "nullish_opt a b = (case a of None \<Rightarrow> b | Some v \<Rightarrow> Some v)"

text \<open>
  One pass of the body of the entity loop of \<open>resolvePlayer\<close>. The first component
  tells whether \<open>resolvePlayer\<close> returns at this entity.
\<close>

definition resolveEntity ::
  "input \<Rightarrow> real \<Rightarrow> real \<Rightarrow> rectangle \<Rightarrow> player \<times> rectangle \<Rightarrow> segment_entity
     \<Rightarrow> bool \<times> (player \<times> rectangle) \<times> segment_entity"
where
  "resolveEntity inp dt off previousRect st entity0 =
     (let entity = updateCooldown dt entity0;
          (p, playerRect) = st;
          props = e_properties entity
      in if e_type entity = ''platform''
           then (False, resolvePlatform entity off previousRect (p, playerRect), entity)
         else if e_type entity = ''spike''
           then (if checkSpikeCollision playerRect off entity
                 then (True, (die p, playerRect), entity)
                 else (False, (p, playerRect), entity))
         else if e_type entity = ''booster''
           then (if checkEntityOverlap playerRect off entity \<and> e_cooldown entity = 0
                 then (False,
                       (applyBoost
                          \<lparr>multiplier = Some (nullish (prop_multiplier props) 1.2),
                           duration = Some (nullish (prop_duration props) 1),
                           gravityScale = Some (nullish (prop_gravityScale props) 0.7)\<rparr> p,
                        playerRect),
                       entity\<lparr>e_cooldown :=
                         nullish (nullish_opt (prop_cooldown props) (prop_duration props)) 1
                           + 0.2\<rparr>)
                 else (False, (p, playerRect), entity))
         else if e_type entity = ''orb''
           then (if e_cooldown entity = 0 \<and> checkOrbCollision playerRect off entity
                 then (if didPressJumpThisFrame inp \<or> isJumpHeld inp
                       then (False,
                             (performOrbJump (nullish (prop_power props) 1000) p, playerRect),
                             entity\<lparr>e_cooldown := nullish (prop_cooldown props) 0.3\<rparr>)
                       else (False, (p, playerRect), entity))
                 else (False, (p, playerRect), entity))
         else if e_type entity = ''portal''
           then (if checkEntityOverlap playerRect off entity \<and> e_cooldown entity = 0
                 then (let p' = flipGravity (prop_gravity props) p
                       in (False, (p', getBounds p'),
                           entity\<lparr>e_cooldown := nullish (prop_cooldown props) 0.8\<rparr>))
                 else (False, (p, playerRect), entity))
         else (False, (p, playerRect), entity))"

text \<open>The loop over the entities of one segment, left at the first entity that returns.\<close>

fun resolveEntities ::
  "input \<Rightarrow> real \<Rightarrow> real \<Rightarrow> rectangle \<Rightarrow> player \<times> rectangle \<Rightarrow> segment_entity list
     \<Rightarrow> bool \<times> (player \<times> rectangle) \<times> segment_entity list"
where
  "resolveEntities inp dt off previousRect st [] = (False, st, [])"
| "resolveEntities inp dt off previousRect st (entity # es) =
     (case resolveEntity inp dt off previousRect st entity of
        (True, st', entity') \<Rightarrow> (True, st', entity' # es)
      | (False, st', entity') \<Rightarrow>
          (case resolveEntities inp dt off previousRect st' es of
             (returned, st'', es') \<Rightarrow> (returned, st'', entity' # es')))"

text \<open>The loop over the active segments; a segment outside the window is skipped.\<close>

fun resolveSegments ::
  "input \<Rightarrow> real \<Rightarrow> rectangle \<Rightarrow> real \<Rightarrow> real \<Rightarrow> player \<times> rectangle \<Rightarrow> level_segment list
     \<Rightarrow> bool \<times> (player \<times> rectangle) \<times> level_segment list"
where
  "resolveSegments inp dt previousRect visibleStart visibleEnd st [] = (False, st, [])"
| "resolveSegments inp dt previousRect visibleStart visibleEnd st (segment # segs) =
     (if segment_end segment < visibleStart \<or> offset segment > visibleEnd
      then (case resolveSegments inp dt previousRect visibleStart visibleEnd st segs of
              (returned, st', segs') \<Rightarrow> (returned, st', segment # segs'))
      else (case resolveEntities inp dt (offset segment) previousRect st (entities segment) of
              (True, st', es') \<Rightarrow> (True, st', segment\<lparr>entities := es'\<rparr> # segs)
            | (False, st', es') \<Rightarrow>
                (case resolveSegments inp dt previousRect visibleStart visibleEnd st' segs of
                   (returned, st'', segs') \<Rightarrow>
                     (returned, st'', segment\<lparr>entities := es'\<rparr> # segs'))))"

text \<open>The clamp against the floor or the ceiling that opens \<open>resolvePlayer\<close>.\<close>

definition preClamp :: "player \<Rightarrow> player \<times> rectangle" where
  "preClamp p =
     (let playerRect = getBounds p
      in if gravityDirection p = 1
         then (if rect_bottom playerRect \<ge> FLOOR_Y
               then (let p' = land FLOOR_Y p in (p', getBounds p'))
               else (p, playerRect))
         else (if rect_top playerRect \<le> CEILING_Y
               then (let p' = land CEILING_Y p in (p', getBounds p'))
               else (p, playerRect)))"

text \<open>The two checks that close \<open>resolvePlayer\<close> when the entity loop ran to its end.\<close>

definition revalidate :: "player \<Rightarrow> player" where
  "revalidate p =
     (let p1 = (if isGrounded p \<and> gravityDirection p = 1 \<and> rect_bottom (getBounds p) > FLOOR_Y
                then land FLOOR_Y p else p)
      in if isGrounded p1 \<and> gravityDirection p1 = - 1 \<and> rect_top (getBounds p1) < CEILING_Y
         then land CEILING_Y p1 else p1)"

definition resolvePlayer :: "input \<Rightarrow> real \<Rightarrow> level \<Rightarrow> player \<Rightarrow> player \<times> level" where
  "resolvePlayer inp dt l p =
     (let previousRect = getPreviousBounds p;
          st = preClamp p;
          visibleStart = scrollX l - recycleMargin l;
          visibleEnd = scrollX l + viewportWorldWidth l + recycleMargin l
      in case resolveSegments inp dt previousRect visibleStart visibleEnd st (activeSegments l) of
           (True, (p', playerRect), segs) \<Rightarrow> (p', l\<lparr>activeSegments := segs\<rparr>)
         | (False, (p', playerRect), segs) \<Rightarrow> (revalidate p', l\<lparr>activeSegments := segs\<rparr>))"

section \<open>Frames\<close>

text \<open>
  The simulation part of \<open>Game.update\<close>, for a running game without a restart
  request, at the clamped time step \<open>deltaTime\<close>: the player integrates, its
  \<open>position.x\<close> is pinned to the scroll position, the level scrolls and recycles, the
  resolver runs and the buffered jump is applied.
\<close>

definition Game_simulate ::
  "real \<Rightarrow> (nat \<Rightarrow> real) \<Rightarrow> nat \<Rightarrow> input \<Rightarrow> player \<Rightarrow> level
     \<Rightarrow> (error + player \<times> level \<times> input \<times> nat) option"
where
  "Game_simulate deltaTime rng k inp p l =
     (let (p1, inp1) = Player_update deltaTime inp p;
          p2 = p1\<lparr>position_x := scrollX l + anchorX p1\<rparr>
      in case Level_update deltaTime p2 rng k l of
           None \<Rightarrow> None
         | Some (Inl e) \<Rightarrow> Some (Inl e)
         | Some (Inr (l1, k1)) \<Rightarrow>
             (let (p3, l2) = resolvePlayer inp1 deltaTime l1 p2
              in Some (Inr (postResolve p3, l2, finalizeFrame inp1, k1))))"

text \<open>
  A run of \<open>Player.update\<close> steps, one time step and one input state per frame, with
  nothing else acting on the player in between.
\<close>

fun Player_updates :: "(real \<times> input) list \<Rightarrow> player \<Rightarrow> player" where
  "Player_updates [] p = p"
| "Player_updates ((dt, inp) # steps) p = Player_updates steps (fst (Player_update dt inp p))"

text \<open>
  A run of frames in which the resolver does not touch the player: \<open>Player.update\<close>,
  then \<open>Player.postResolve\<close>.
\<close>

fun free_frames :: "(real \<times> input) list \<Rightarrow> player \<Rightarrow> player" where
  "free_frames [] p = p"
| "free_frames ((dt, inp) # steps) p =
     free_frames steps (postResolve (fst (Player_update dt inp p)))"

text \<open>
  A run of \<open>Level.update\<close> steps, each with its time step and the player it reads the
  speed multiplier of.
\<close>

fun Level_updates ::
  "(real \<times> player) list \<Rightarrow> (nat \<Rightarrow> real) \<Rightarrow> nat \<Rightarrow> level \<Rightarrow> (error + level \<times> nat) option"
where
  "Level_updates [] rng k l = Some (Inr (l, k))"
| "Level_updates ((dt, p) # steps) rng k l =
     (case Level_update dt p rng k l of
        None \<Rightarrow> None
      | Some (Inl e) \<Rightarrow> Some (Inl e)
      | Some (Inr (l', k')) \<Rightarrow> Level_updates steps rng k' l')"

text \<open>Every segment of the list starts where the one before it ends.\<close>

fun contiguous :: "level_segment list \<Rightarrow> bool" where
  "contiguous [] = True"
| "contiguous [s] = True"
| "contiguous (s # t # segs) = (offset t = segment_end s \<and> contiguous (t # segs))"

text \<open>The entity does not meet the player's rectangle: its circle for an orb, else its rectangle.\<close>

definition untouched :: "rectangle \<Rightarrow> real \<Rightarrow> segment_entity \<Rightarrow> bool" where
  "untouched playerRect off entity =
     (if e_type entity = ''orb'' then \<not> checkOrbCollision playerRect off entity
      else \<not> intersects playerRect (entityRect off entity))"

section \<open>Sample inputs\<close>

definition no_input :: input where
  "no_input = \<lparr>jumpQueue = 0, jumpPressedThisFrame = False, jumpHeld = False,
      pointerHeld = False, restartRequested = False\<rparr>"

definition booster_1 :: boost where
  "booster_1 = \<lparr>multiplier = Some 1.35, duration = Some 1.2, gravityScale = Some 0.55\<rparr>"

text \<open>A player as constructed, moved to the given position.\<close>

definition player_at :: "real \<Rightarrow> real \<Rightarrow> player" where
  "player_at x y =
     new_Player\<lparr>position_x := x, position_y := y,
                previousPosition_x := x, previousPosition_y := y\<rparr>"

text \<open>The level as \<open>Level.reset\<close> leaves it when built over the segment library.\<close>

definition library_segment :: "nat \<Rightarrow> real \<Rightarrow> level_segment" where
  "library_segment i off = LevelSegment_reset off (new_LevelSegment (SEGMENT_LIBRARY ! i))"

definition fresh_level :: level where
  "fresh_level =
     (new_Level SEGMENT_LIBRARY)
       \<lparr>activeSegments := [library_segment 0 0, library_segment 1 1400,
                           library_segment 2 2600, library_segment 3 3960]\<rparr>"

text \<open>The first spike of the first library segment.\<close>

definition first_spike :: segment_entity where
  "first_spike = new_SegmentEntity (spike_bp 540 (FLOOR_Y - 64) 64 64 ''up'')"

text \<open>A random source that always returns one half.\<close>

definition steady_rng :: "nat \<Rightarrow> real" where
  "steady_rng i = 1 / 2"

text \<open>
  The fresh level after one update of six seconds at speed multiplier 1: the first
  segment has been recycled to the end of the window, with the third library template.
\<close>

definition recycled_level :: level where
  "recycled_level =
     fresh_level
       \<lparr>scrollX := 2160,
        activeSegments := [library_segment 1 1400, library_segment 2 2600,
                           library_segment 3 3960, library_segment 2 5240]\<rparr>"

text \<open>The input after one jump press.\<close>

definition jump_pressed :: input where
  "jump_pressed = handleJumpPress no_input"

section \<open>Properties\<close>

lemma open_intervals_meet:
  fixes l1 r1 l2 r2 :: real
  assumes "l1 < r1" "l2 < r2"
  shows "({l1<..<r1} \<inter> {l2<..<r2} \<noteq> {}) = (l1 < r2 \<and> l2 < r1)"
  using assms by (simp add: min_def max_def not_le)

subsection \<open>Rectangle intersection\<close>

text \<open>
  C8. \<open>Rectangle.intersects\<close> is false as soon as one of the four exclusions holds,
  so two rectangles that share exactly an edge do not intersect; it holds exactly when
  the strict overlap test passes on both axes, which for rectangles of positive width and
  height says that the open intervals they span meet on both axes.
\<close>

theorem intersects_excludes_touching_edges:
  "(rect_right a \<le> rect_left b \<or> rect_left a \<ge> rect_right b \<or>
      rect_bottom a \<le> rect_top b \<or> rect_top a \<ge> rect_bottom b \<longrightarrow> \<not> intersects a b)
   \<and> (rect_right a = rect_left b \<longrightarrow> \<not> intersects a b)
   \<and> (intersects a b \<longleftrightarrow>
        rect_left a < rect_right b \<and> rect_left b < rect_right a \<and>
        rect_top a < rect_bottom b \<and> rect_top b < rect_bottom a)
   \<and> (0 < rect_width a \<and> 0 < rect_height a \<and> 0 < rect_width b \<and> 0 < rect_height b \<longrightarrow>
        (intersects a b \<longleftrightarrow>
           {rect_left a<..<rect_right a} \<inter> {rect_left b<..<rect_right b} \<noteq> {} \<and>
           {rect_top a<..<rect_bottom a} \<inter> {rect_top b<..<rect_bottom b} \<noteq> {}))"
proof -
  have strict: "intersects a b \<longleftrightarrow>
        rect_left a < rect_right b \<and> rect_left b < rect_right a \<and>
        rect_top a < rect_bottom b \<and> rect_top b < rect_bottom a"
    by (auto simp: intersects_def)
  have sets: "intersects a b \<longleftrightarrow>
           {rect_left a<..<rect_right a} \<inter> {rect_left b<..<rect_right b} \<noteq> {} \<and>
           {rect_top a<..<rect_bottom a} \<inter> {rect_top b<..<rect_bottom b} \<noteq> {}"
    if pos: "0 < rect_width a \<and> 0 < rect_height a \<and> 0 < rect_width b \<and> 0 < rect_height b"
  proof -
    have ne: "rect_left a < rect_right a" "rect_left b < rect_right b"
         "rect_top a < rect_bottom a" "rect_top b < rect_bottom b"
      using pos by (simp_all add: rect_left_def rect_right_def rect_top_def rect_bottom_def)
    have h: "({rect_left a<..<rect_right a} \<inter> {rect_left b<..<rect_right b} \<noteq> {})
        = (rect_left a < rect_right b \<and> rect_left b < rect_right a)"
      by (rule open_intervals_meet) (rule ne)+
    have v: "({rect_top a<..<rect_bottom a} \<inter> {rect_top b<..<rect_bottom b} \<noteq> {})
        = (rect_top a < rect_bottom b \<and> rect_top b < rect_bottom a)"
      by (rule open_intervals_meet) (rule ne)+
    show ?thesis
      unfolding h v strict by blast
  qed
  show ?thesis
    using strict sets by auto
qed

theorem intersects_excludes_touching_edges_witness:
  "rect_right (Rectangle 0 0 10 10) = rect_left (Rectangle 10 0 10 10)
   \<and> \<not> intersects (Rectangle 0 0 10 10) (Rectangle 10 0 10 10)
   \<and> {rect_left (Rectangle 0 0 10 10)<..<rect_right (Rectangle 0 0 10 10)}
        \<inter> {rect_left (Rectangle 10 0 10 10)<..<rect_right (Rectangle 10 0 10 10)} = {}
   \<and> 0 < rect_width (Rectangle 5 5 10 10) \<and> 0 < rect_height (Rectangle 5 5 10 10)
   \<and> rect_left (Rectangle 0 0 10 10) < rect_right (Rectangle 5 5 10 10)
   \<and> intersects (Rectangle 0 0 10 10) (Rectangle 5 5 10 10)
   \<and> {rect_left (Rectangle 0 0 10 10)<..<rect_right (Rectangle 0 0 10 10)}
        \<inter> {rect_left (Rectangle 5 5 10 10)<..<rect_right (Rectangle 5 5 10 10)} \<noteq> {}"
proof -
  have touching: "\<not> intersects (Rectangle 0 0 10 10) (Rectangle 10 0 10 10)"
    using intersects_excludes_touching_edges [of "Rectangle 0 0 10 10" "Rectangle 10 0 10 10"]
    by (simp add: Rectangle_def rect_left_def rect_right_def)
  have apart: "{rect_left (Rectangle 0 0 10 10)<..<rect_right (Rectangle 0 0 10 10)}
        \<inter> {rect_left (Rectangle 10 0 10 10)<..<rect_right (Rectangle 10 0 10 10)} = {}"
    by (simp add: Rectangle_def rect_left_def rect_right_def)
  have strict: "rect_left (Rectangle 0 0 10 10) < rect_right (Rectangle 5 5 10 10)"
      "rect_left (Rectangle 5 5 10 10) < rect_right (Rectangle 0 0 10 10)"
      "rect_top (Rectangle 0 0 10 10) < rect_bottom (Rectangle 5 5 10 10)"
      "rect_top (Rectangle 5 5 10 10) < rect_bottom (Rectangle 0 0 10 10)"
    by (simp_all add: Rectangle_def rect_left_def rect_right_def rect_top_def rect_bottom_def)
  have size: "0 < rect_width (Rectangle 0 0 10 10)" "0 < rect_height (Rectangle 0 0 10 10)"
      "0 < rect_width (Rectangle 5 5 10 10)" "0 < rect_height (Rectangle 5 5 10 10)"
    by (simp_all add: Rectangle_def)
  note inst = intersects_excludes_touching_edges [of "Rectangle 0 0 10 10" "Rectangle 5 5 10 10"]
  have overlap: "intersects (Rectangle 0 0 10 10) (Rectangle 5 5 10 10)"
    using inst strict by blast
  have meet: "{rect_left (Rectangle 0 0 10 10)<..<rect_right (Rectangle 0 0 10 10)}
        \<inter> {rect_left (Rectangle 5 5 10 10)<..<rect_right (Rectangle 5 5 10 10)} \<noteq> {}"
    using inst size overlap by blast
  have edge: "rect_right (Rectangle 0 0 10 10) = rect_left (Rectangle 10 0 10 10)"
    by (simp add: Rectangle_def rect_left_def rect_right_def)
  from edge touching apart size(3,4) strict(1) overlap meet show ?thesis
    by (intro conjI)
qed

subsection \<open>Landing\<close>

text \<open>
  C3. \<open>Player.land(surfaceY)\<close> sets \<open>velocity.y\<close> to 0, \<open>isGrounded\<close> to
  true and \<open>coyoteTimer\<close> to \<open>coyoteTime\<close>, and puts \<open>position.y\<close> half a body
  above the surface under gravity direction +1 and half a body below it under -1.
\<close>

theorem land_postcondition:
  "velocity_y (land surfaceY p) = 0
   \<and> isGrounded (land surfaceY p)
   \<and> coyoteTimer (land surfaceY p) = coyoteTime p
   \<and> (gravityDirection p = 1 \<longrightarrow> position_y (land surfaceY p) = surfaceY - halfSize p)
   \<and> (gravityDirection p = - 1 \<longrightarrow> position_y (land surfaceY p) = surfaceY + halfSize p)"
  by (simp add: land_def halfSize_def)

theorem land_postcondition_witness:
  "gravityDirection new_Player = 1
   \<and> position_y (land FLOOR_Y new_Player) = 568
   \<and> gravityDirection (new_Player\<lparr>gravityDirection := - 1\<rparr>) = - 1
   \<and> position_y (land CEILING_Y (new_Player\<lparr>gravityDirection := - 1\<rparr>)) = 152
   \<and> velocity_y (land FLOOR_Y new_Player) = 0
   \<and> isGrounded (land FLOOR_Y new_Player)"
  using land_postcondition [of FLOOR_Y new_Player]
    land_postcondition [of CEILING_Y "new_Player\<lparr>gravityDirection := - 1\<rparr>"]
  by (simp add: new_Player_def halfSize_def FLOOR_Y_def CEILING_Y_def WORLD_HEIGHT_def
      PLAYER_SIZE_def)

subsection \<open>Gravity flip\<close>

text \<open>
  C5. \<open>Player.flipGravity(target)\<close> with the current direction as target changes
  nothing. With the opposite target it flips \<open>gravityDirection\<close>, zeroes \<open>velocity.y\<close>,
  clears \<open>isGrounded\<close> and \<open>coyoteTimer\<close>, and clamps \<open>position.y\<close>: to at most
  \<open>FLOOR_Y - halfSize\<close> when the new direction is +1, to at least
  \<open>CEILING_Y + halfSize\<close> when it is -1.
\<close>

theorem flipGravity_spec:
  "flipGravity (Some (gravityDirection p)) p = p
   \<and> (gravityDirection p = 1 \<or> gravityDirection p = - 1 \<longrightarrow>
        (let q = flipGravity (Some (- gravityDirection p)) p
         in gravityDirection q = - gravityDirection p
            \<and> velocity_y q = 0
            \<and> \<not> isGrounded q
            \<and> coyoteTimer q = 0
            \<and> (gravityDirection q = 1 \<longrightarrow>
                  position_y q = min (position_y p) (FLOOR_Y - halfSize p)
                  \<and> position_y q \<le> FLOOR_Y - halfSize p)
            \<and> (gravityDirection q = - 1 \<longrightarrow>
                  position_y q = max (position_y p) (CEILING_Y + halfSize p)
                  \<and> position_y q \<ge> CEILING_Y + halfSize p)))"
  by (auto simp: flipGravity_def nullish_def Let_def halfSize_def)

theorem flipGravity_spec_witness:
  "(gravityDirection new_Player = 1 \<or> gravityDirection new_Player = - 1)
   \<and> gravityDirection (flipGravity (Some (- gravityDirection new_Player)) new_Player) = - 1
   \<and> position_y (flipGravity (Some (- gravityDirection new_Player)) new_Player) = 568
   \<and> velocity_y (flipGravity (Some (- gravityDirection new_Player)) new_Player) = 0
   \<and> flipGravity (Some 1) new_Player = new_Player"
  using flipGravity_spec [of new_Player]
  by (simp add: new_Player_def Let_def halfSize_def FLOOR_Y_def CEILING_Y_def WORLD_HEIGHT_def
      PLAYER_SIZE_def)

subsection \<open>Boosts\<close>

text \<open>
  C10. \<open>Player.applyBoost\<close> with a \<open>gravityScale\<close> that is absent or 0 leaves
  \<open>gravityScaleDuringBoost\<close> as it was (a nonzero one replaces it), while
  \<open>speedMultiplier\<close> and \<open>boostTimer\<close> are updated by the max rule all the same.
\<close>

theorem applyBoost_falsy_gravityScale:
  "(gravityScale b = None \<or> gravityScale b = Some 0 \<longrightarrow>
      gravityScaleDuringBoost (applyBoost b p) = gravityScaleDuringBoost p)
   \<and> (\<forall>g. gravityScale b = Some g \<and> g \<noteq> 0 \<longrightarrow>
         gravityScaleDuringBoost (applyBoost b p) = g)
   \<and> speedMultiplier (applyBoost b p) = max (nullish (multiplier b) 1) (speedMultiplier p)
   \<and> boostTimer (applyBoost b p) = max (nullish (duration b) 0) (boostTimer p)"
  by (auto simp: applyBoost_def Let_def split: option.splits)

theorem applyBoost_falsy_gravityScale_witness:
  "gravityScale \<lparr>multiplier = Some 1.35, duration = Some 1.2, gravityScale = Some 0\<rparr> = Some 0
   \<and> gravityScaleDuringBoost
        (applyBoost \<lparr>multiplier = Some 1.35, duration = Some 1.2, gravityScale = Some 0\<rparr>
           new_Player) = 0.65
   \<and> speedMultiplier
        (applyBoost \<lparr>multiplier = Some 1.35, duration = Some 1.2, gravityScale = Some 0\<rparr>
           new_Player) = 1.35
   \<and> boostTimer
        (applyBoost \<lparr>multiplier = Some 1.35, duration = Some 1.2, gravityScale = Some 0\<rparr>
           new_Player) = 1.2
   \<and> gravityScale \<lparr>multiplier = None, duration = None, gravityScale = None\<rparr> = None
   \<and> gravityScaleDuringBoost
        (applyBoost \<lparr>multiplier = None, duration = None, gravityScale = None\<rparr> new_Player)
        = 0.65
   \<and> gravityScale booster_1 = Some 0.55
   \<and> gravityScaleDuringBoost (applyBoost booster_1 new_Player) = 0.55"
proof -
  have zero: "gravityScaleDuringBoost
        (applyBoost \<lparr>multiplier = Some 1.35, duration = Some 1.2, gravityScale = Some 0\<rparr>
           new_Player) = 0.65"
      "speedMultiplier
        (applyBoost \<lparr>multiplier = Some 1.35, duration = Some 1.2, gravityScale = Some 0\<rparr>
           new_Player) = 1.35"
      "boostTimer
        (applyBoost \<lparr>multiplier = Some 1.35, duration = Some 1.2, gravityScale = Some 0\<rparr>
           new_Player) = 1.2"
    using applyBoost_falsy_gravityScale
      [of "\<lparr>multiplier = Some 1.35, duration = Some 1.2, gravityScale = Some 0\<rparr>" new_Player]
    by (simp_all add: new_Player_def nullish_def)
  have absent: "gravityScaleDuringBoost
        (applyBoost \<lparr>multiplier = None, duration = None, gravityScale = None\<rparr> new_Player)
        = 0.65"
    using applyBoost_falsy_gravityScale
      [of "\<lparr>multiplier = None, duration = None, gravityScale = None\<rparr>" new_Player]
    by (simp add: new_Player_def)
  have given: "gravityScale booster_1 = Some 0.55"
    by (simp add: booster_1_def)
  note inst = applyBoost_falsy_gravityScale [of booster_1 new_Player]
  have nonzero: "gravityScaleDuringBoost (applyBoost booster_1 new_Player) = 0.55"
  proof -
    have "(0.55::real) \<noteq> 0" by simp
    with inst given show ?thesis by blast
  qed
  from zero absent given nonzero show ?thesis by simp
qed

subsection \<open>Field by field: what a player update changes\<close>

lemma integrate_fields:
  "isAlive (integrate dt p) = isAlive p"
  "boostTimer (integrate dt p) = boostTimer p"
  "speedMultiplier (integrate dt p) = speedMultiplier p"
  "jumpBuffer (integrate dt p) = jumpBuffer p"
  "coyoteTimer (integrate dt p) = coyoteTimer p"
  "isGrounded (integrate dt p) = isGrounded p"
  "gravityDirection (integrate dt p) = gravityDirection p"
  "jumpStrength (integrate dt p) = jumpStrength p"
  "player_size (integrate dt p) = player_size p"
  "position_x (integrate dt p) = position_x p"
  "velocity_y (integrate dt p) =
     min (maxFallSpeed p) (max (- maxRiseSpeed p)
       (velocity_y p + gravity p * gravityDirection p *
          (if 0 < boostTimer p then gravityScaleDuringBoost p else 1) * dt))"
  "position_y (integrate dt p) = position_y p + velocity_y (integrate dt p) * dt"
  "previousPosition_y (integrate dt p) = position_y p"
  "previousPosition_x (integrate dt p) = position_x p"
  by (simp_all add: integrate_def Let_def)

lemma decayTimers_fields:
  "isAlive (decayTimers dt p) = isAlive p"
  "boostTimer (decayTimers dt p) = boostTimer p"
  "speedMultiplier (decayTimers dt p) = speedMultiplier p"
  "jumpBuffer (decayTimers dt p) = max 0 (jumpBuffer p - dt)"
  "coyoteTimer (decayTimers dt p) = max 0 (coyoteTimer p - dt)"
  "isGrounded (decayTimers dt p) = isGrounded p"
  "gravityDirection (decayTimers dt p) = gravityDirection p"
  "jumpStrength (decayTimers dt p) = jumpStrength p"
  "player_size (decayTimers dt p) = player_size p"
  "position_x (decayTimers dt p) = position_x p"
  "velocity_y (decayTimers dt p) = velocity_y p"
  "position_y (decayTimers dt p) = position_y p"
  "previousPosition_y (decayTimers dt p) = previousPosition_y p"
  "previousPosition_x (decayTimers dt p) = previousPosition_x p"
  by (simp_all add: decayTimers_def Let_def)

lemma decayBoost_fields:
  "isAlive (decayBoost dt p) = isAlive p"
  "boostTimer (decayBoost dt p) =
     (if 0 < boostTimer p then max 0 (boostTimer p - dt) else boostTimer p)"
  "speedMultiplier (decayBoost dt p) =
     (if 0 < boostTimer p \<and> max 0 (boostTimer p - dt) = 0 then 1 else speedMultiplier p)"
  "jumpBuffer (decayBoost dt p) = jumpBuffer p"
  "coyoteTimer (decayBoost dt p) = coyoteTimer p"
  "isGrounded (decayBoost dt p) = isGrounded p"
  "gravityDirection (decayBoost dt p) = gravityDirection p"
  "jumpStrength (decayBoost dt p) = jumpStrength p"
  "player_size (decayBoost dt p) = player_size p"
  "position_x (decayBoost dt p) = position_x p"
  "velocity_y (decayBoost dt p) = velocity_y p"
  "position_y (decayBoost dt p) = position_y p"
  "previousPosition_y (decayBoost dt p) = previousPosition_y p"
  "previousPosition_x (decayBoost dt p) = previousPosition_x p"
  by (simp_all add: decayBoost_def Let_def)

lemma Player_update_dead: "\<not> isAlive p \<Longrightarrow> Player_update dt inp p = (p, inp)"
  by (simp add: Player_update_def)

lemma Player_update_alive_eq:
  "isAlive p \<Longrightarrow> fst (Player_update dt inp p) =
     decayBoost dt (decayTimers dt (integrate dt
       (if 0 < jumpQueue inp then p\<lparr>jumpBuffer := jumpBufferTime p\<rparr> else p)))"
  by (simp add: Player_update_def consumeJumpRequest_def)

lemmas stage_fields = integrate_fields decayTimers_fields decayBoost_fields

lemma Player_update_alive: "isAlive (fst (Player_update dt inp p)) = isAlive p"
  by (cases "isAlive p") (simp_all add: Player_update_dead Player_update_alive_eq stage_fields)

lemma Player_update_boostTimer:
  "isAlive p \<Longrightarrow> boostTimer (fst (Player_update dt inp p)) =
     (if 0 < boostTimer p then max 0 (boostTimer p - dt) else boostTimer p)"
  by (simp add: Player_update_alive_eq stage_fields)

lemma Player_update_speedMultiplier:
  "isAlive p \<Longrightarrow> speedMultiplier (fst (Player_update dt inp p)) =
     (if 0 < boostTimer p \<and> max 0 (boostTimer p - dt) = 0 then 1 else speedMultiplier p)"
  by (auto simp: Player_update_alive_eq stage_fields)

lemma Player_update_jumpBuffer:
  "isAlive p \<Longrightarrow> jumpBuffer (fst (Player_update dt inp p)) =
     max 0 ((if 0 < jumpQueue inp then jumpBufferTime p else jumpBuffer p) - dt)"
  by (simp add: Player_update_alive_eq stage_fields)

lemma Player_update_coyoteTimer:
  "isAlive p \<Longrightarrow> coyoteTimer (fst (Player_update dt inp p)) = max 0 (coyoteTimer p - dt)"
  by (simp add: Player_update_alive_eq stage_fields)

lemma Player_update_kept:
  "isGrounded (fst (Player_update dt inp p)) = isGrounded p"
  "gravityDirection (fst (Player_update dt inp p)) = gravityDirection p"
  "jumpStrength (fst (Player_update dt inp p)) = jumpStrength p"
  "player_size (fst (Player_update dt inp p)) = player_size p"
  "position_x (fst (Player_update dt inp p)) = position_x p"
  by (cases "isAlive p";
      simp add: Player_update_dead Player_update_alive_eq stage_fields)+

lemma Player_update_boost_idle:
  assumes "boostTimer p = 0"
  shows "boostTimer (fst (Player_update dt inp p)) = 0
         \<and> speedMultiplier (fst (Player_update dt inp p)) = speedMultiplier p"
  using assms
  by (cases "isAlive p")
     (simp_all add: Player_update_dead Player_update_boostTimer Player_update_speedMultiplier)

lemma Player_update_boost_running:
  assumes "isAlive p" and "0 < boostTimer p"
  shows "boostTimer (fst (Player_update dt inp p)) = max 0 (boostTimer p - dt)
         \<and> (boostTimer (fst (Player_update dt inp p)) = 0
              \<longrightarrow> speedMultiplier (fst (Player_update dt inp p)) = 1)"
  using assms by (simp add: Player_update_boostTimer Player_update_speedMultiplier)

lemma Player_updates_boost_idle:
  "boostTimer p = 0 \<Longrightarrow>
     boostTimer (Player_updates steps p) = 0
     \<and> speedMultiplier (Player_updates steps p) = speedMultiplier p"
proof (induction steps arbitrary: p)
  case Nil
  then show ?case by simp
next
  case (Cons step steps)
  obtain dt inp where step: "step = (dt, inp)" by (cases step)
  from Cons.prems have one: "boostTimer (fst (Player_update dt inp p)) = 0"
      "speedMultiplier (fst (Player_update dt inp p)) = speedMultiplier p"
    by (simp_all add: Player_update_boost_idle)
  from Cons.IH [OF one(1)] one(2) show ?case by (simp add: step)
qed

lemma Player_updates_expired:
  "isAlive p \<Longrightarrow> 0 < boostTimer p \<Longrightarrow> boostTimer (Player_updates steps p) = 0 \<Longrightarrow>
     speedMultiplier (Player_updates steps p) = 1"
proof (induction steps arbitrary: p)
  case Nil
  then show ?case by simp
next
  case (Cons step steps)
  obtain dt inp where step: "step = (dt, inp)" by (cases step)
  let ?q = "fst (Player_update dt inp p)"
  have alive: "isAlive ?q" using Cons.prems(1) by (simp add: Player_update_alive)
  have run: "boostTimer ?q = max 0 (boostTimer p - dt)"
      "boostTimer ?q = 0 \<longrightarrow> speedMultiplier ?q = 1"
    using Player_update_boost_running [OF Cons.prems(1,2)] by simp_all
  show ?case
  proof (cases "boostTimer ?q = 0")
    case True
    with run Player_updates_boost_idle [OF True, of steps] show ?thesis
      by (simp add: step)
  next
    case False
    with run(1) have "0 < boostTimer ?q" by simp
    from Cons.IH [OF alive this] Cons.prems(3) show ?thesis by (simp add: step)
  qed
qed

lemma Player_updates_decay:
  "isAlive p \<Longrightarrow> 0 < boostTimer p \<Longrightarrow> \<forall>step \<in> set steps. 0 \<le> fst step \<Longrightarrow>
     boostTimer p \<le> sum_list (map fst steps) \<Longrightarrow> boostTimer (Player_updates steps p) = 0"
proof (induction steps arbitrary: p)
  case Nil
  then show ?case by simp
next
  case (Cons step steps)
  obtain dt inp where step: "step = (dt, inp)" by (cases step)
  let ?q = "fst (Player_update dt inp p)"
  have alive: "isAlive ?q" using Cons.prems(1) by (simp add: Player_update_alive)
  have run: "boostTimer ?q = max 0 (boostTimer p - dt)"
    using Player_update_boost_running [OF Cons.prems(1,2)] by simp
  show ?case
  proof (cases "boostTimer ?q = 0")
    case True
    with Player_updates_boost_idle [OF True, of steps] show ?thesis
      by (simp add: step)
  next
    case False
    with run have pos: "0 < boostTimer ?q" and eq: "boostTimer ?q = boostTimer p - dt" by simp_all
    have "boostTimer ?q \<le> sum_list (map fst steps)"
      using Cons.prems(4) eq by (simp add: step)
    from Cons.IH [OF alive pos _ this] Cons.prems(3) show ?thesis by (simp add: step)
  qed
qed

text \<open>
  C6. Boosts combine by maximum: after two boosts, in either order, \<open>speedMultiplier\<close>
  and \<open>boostTimer\<close> are at least what either boost alone would give, and a boost never
  lowers either. Once \<open>boostTimer\<close> has run down to 0 through \<open>Player.update\<close>
  steps with no boost in between (which it has as soon as the steps last as long as the
  timer), \<open>speedMultiplier\<close> is 1 again.
\<close>

theorem applyBoost_max_monotone:
  "max (speedMultiplier (applyBoost b1 p)) (speedMultiplier (applyBoost b2 p))
      \<le> speedMultiplier (applyBoost b2 (applyBoost b1 p))
   \<and> max (speedMultiplier (applyBoost b1 p)) (speedMultiplier (applyBoost b2 p))
      \<le> speedMultiplier (applyBoost b1 (applyBoost b2 p))
   \<and> max (boostTimer (applyBoost b1 p)) (boostTimer (applyBoost b2 p))
      \<le> boostTimer (applyBoost b2 (applyBoost b1 p))
   \<and> max (boostTimer (applyBoost b1 p)) (boostTimer (applyBoost b2 p))
      \<le> boostTimer (applyBoost b1 (applyBoost b2 p))
   \<and> speedMultiplier p \<le> speedMultiplier (applyBoost b1 p)
   \<and> boostTimer p \<le> boostTimer (applyBoost b1 p)
   \<and> (isAlive q \<and> 0 < boostTimer q \<and> boostTimer (Player_updates steps q) = 0
        \<longrightarrow> speedMultiplier (Player_updates steps q) = 1)
   \<and> (isAlive q \<and> 0 < boostTimer q \<and> (\<forall>step \<in> set steps. 0 \<le> fst step)
          \<and> boostTimer q \<le> sum_list (map fst steps)
        \<longrightarrow> boostTimer (Player_updates steps q) = 0
            \<and> speedMultiplier (Player_updates steps q) = 1)"
proof -
  have sm: "speedMultiplier (applyBoost b r) = max (nullish (multiplier b) 1) (speedMultiplier r)"
    and bt: "boostTimer (applyBoost b r) = max (nullish (duration b) 0) (boostTimer r)"
    for b r
    by (simp_all add: applyBoost_def Let_def split: option.splits)
  have expired: "speedMultiplier (Player_updates steps q) = 1"
    if "isAlive q \<and> 0 < boostTimer q \<and> boostTimer (Player_updates steps q) = 0"
    using that Player_updates_expired by blast
  have decay: "boostTimer (Player_updates steps q) = 0"
    if "isAlive q \<and> 0 < boostTimer q \<and> (\<forall>step \<in> set steps. 0 \<le> fst step)
          \<and> boostTimer q \<le> sum_list (map fst steps)"
    using that Player_updates_decay by blast
  have boosts:
    "max (speedMultiplier (applyBoost b1 p)) (speedMultiplier (applyBoost b2 p))
      \<le> speedMultiplier (applyBoost b2 (applyBoost b1 p))"
    "max (speedMultiplier (applyBoost b1 p)) (speedMultiplier (applyBoost b2 p))
      \<le> speedMultiplier (applyBoost b1 (applyBoost b2 p))"
    "max (boostTimer (applyBoost b1 p)) (boostTimer (applyBoost b2 p))
      \<le> boostTimer (applyBoost b2 (applyBoost b1 p))"
    "max (boostTimer (applyBoost b1 p)) (boostTimer (applyBoost b2 p))
      \<le> boostTimer (applyBoost b1 (applyBoost b2 p))"
    "speedMultiplier p \<le> speedMultiplier (applyBoost b1 p)"
    "boostTimer p \<le> boostTimer (applyBoost b1 p)"
    by (simp_all add: sm bt)
  show ?thesis
    using expired decay boosts by blast
qed

theorem applyBoost_max_monotone_witness:
  "isAlive (applyBoost booster_1 new_Player)
   \<and> boostTimer (applyBoost booster_1 new_Player) = 1.2
   \<and> speedMultiplier (applyBoost booster_1 new_Player) = 1.35
   \<and> list_all (\<lambda>step. 0 \<le> fst step) (replicate 4 (0.3::real, no_input))
   \<and> sum_list (map fst (replicate 4 (0.3::real, no_input))) = 1.2
   \<and> boostTimer (Player_updates (replicate 4 (0.3, no_input)) (applyBoost booster_1 new_Player)) = 0
   \<and> speedMultiplier (Player_updates (replicate 4 (0.3, no_input)) (applyBoost booster_1 new_Player)) = 1"
proof -
  let ?q = "applyBoost booster_1 new_Player"
  let ?steps = "replicate 4 (0.3::real, no_input)"
  have a: "isAlive ?q"
    and b: "boostTimer ?q = 1.2"
    and c: "speedMultiplier ?q = 1.35"
    by (simp_all add: applyBoost_def booster_1_def new_Player_def Let_def nullish_def)
  have d: "\<forall>step \<in> set ?steps. 0 \<le> fst step" by simp
  have e: "sum_list (map fst ?steps) = 1.2"
    by (simp add: numeral_eq_Suc)
  have hyp: "isAlive ?q \<and> 0 < boostTimer ?q \<and> (\<forall>step \<in> set ?steps. 0 \<le> fst step)
          \<and> boostTimer ?q \<le> sum_list (map fst ?steps)"
    using a b d e by simp
  have "boostTimer (Player_updates ?steps ?q) = 0 \<and> speedMultiplier (Player_updates ?steps ?q) = 1"
    using applyBoost_max_monotone [of booster_1 new_Player booster_1 ?q ?steps] hyp by blast
  moreover have "list_all (\<lambda>step. 0 \<le> fst step) ?steps"
    by (simp add: list_all_iff)
  ultimately show ?thesis
    using a b c e by blast
qed

subsection \<open>Spikes\<close>

lemma updateCooldown_kept:
  "e_type (updateCooldown dt e) = e_type e"
  "e_orientation (updateCooldown dt e) = e_orientation e"
  "e_properties (updateCooldown dt e) = e_properties e"
  "entityRect off (updateCooldown dt e) = entityRect off e"
  by (simp_all add: updateCooldown_def entityRect_def)

lemma checkSpikeCollision_updateCooldown:
  "checkSpikeCollision r off (updateCooldown dt e) = checkSpikeCollision r off e"
  by (simp add: checkSpikeCollision_def updateCooldown_kept)

lemma checkEntityOverlap_updateCooldown:
  "checkEntityOverlap r off (updateCooldown dt e) = checkEntityOverlap r off e"
  by (simp add: checkEntityOverlap_def updateCooldown_kept)

lemma checkOrbCollision_updateCooldown:
  "checkOrbCollision r off (updateCooldown dt e) = checkOrbCollision r off e"
  by (simp add: checkOrbCollision_def updateCooldown_def)

lemma checkSpikeCollision_slope:
  assumes "e_width e \<noteq> 0"
  shows "checkSpikeCollision r off e \<longleftrightarrow>
     intersects r (entityRect off e) \<and>
     (if e_orientation e = ''up''
      then rect_bottom r \<ge> rect_bottom (entityRect off e)
             - \<bar>(rect_centerX r - rect_left (entityRect off e)) / rect_width (entityRect off e) - 0.5\<bar>
               * rect_height (entityRect off e) * 2
      else rect_top r \<le> rect_top (entityRect off e)
             + \<bar>(rect_centerX r - rect_left (entityRect off e)) / rect_width (entityRect off e) - 0.5\<bar>
               * rect_height (entityRect off e) * 2)"
proof -
  have "rect_width (entityRect off e) \<noteq> 0"
    using assms by (simp add: entityRect_def Rectangle_def)
  then show ?thesis
    by (simp add: checkSpikeCollision_def Let_def)
qed

lemma checkSpikeCollision_above:
  "rect_bottom r \<le> rect_top (entityRect off e) \<Longrightarrow> \<not> checkSpikeCollision r off e"
  by (simp add: checkSpikeCollision_def Let_def intersects_def)

lemma checkSpikeCollision_centre:
  assumes up: "e_orientation e = ''up''"
    and size: "0 < e_width e" "0 < e_height e" "0 < rect_width r" "0 < rect_height r"
    and bottom: "rect_bottom r = rect_bottom (entityRect off e)"
    and centre: "(rect_centerX r - rect_left (entityRect off e)) / rect_width (entityRect off e) = 0.5"
  shows "checkSpikeCollision r off e"
proof -
  let ?s = "entityRect off e"
  have w: "rect_width ?s = e_width e" and h: "rect_height ?s = e_height e"
    by (simp_all add: entityRect_def Rectangle_def)
  have cx: "rect_centerX r - rect_left ?s = rect_width ?s / 2"
    using centre size(1) w by (simp add: field_simps)
  have inter: "intersects r ?s"
    using cx bottom size w h
    by (simp add: intersects_def rect_left_def rect_right_def rect_top_def rect_bottom_def
        rect_centerX_def)
  have line: "\<bar>(rect_centerX r - rect_left ?s) / rect_width ?s - 0.5\<bar>
      * rect_height ?s * 2 = 0"
    unfolding centre by simp
  have ge: "rect_bottom r \<ge> rect_bottom ?s
      - \<bar>(rect_centerX r - rect_left ?s) / rect_width ?s - 0.5\<bar> * rect_height ?s * 2"
    unfolding line bottom by simp
  have wne: "e_width e \<noteq> 0" using size(1) by simp
  show ?thesis
    unfolding checkSpikeCollision_slope [OF wne]
    by (simp only: up if_True simp_thms) (rule conjI [OF inter ge])
qed

lemma resolveEntity_spike_hit:
  assumes "e_type e = ''spike''" and "checkSpikeCollision r off e"
  shows "resolveEntity inp dt off prev (p, r) e = (True, (die p, r), updateCooldown dt e)"
  using assms
  by (simp add: resolveEntity_def Let_def updateCooldown_kept checkSpikeCollision_updateCooldown)

lemma resolveEntities_append:
  "resolveEntities inp dt off prev st (xs @ ys) =
     (case resolveEntities inp dt off prev st xs of
        (True, st', xs') \<Rightarrow> (True, st', xs' @ ys)
      | (False, st', xs') \<Rightarrow>
          (case resolveEntities inp dt off prev st' ys of
             (returned, st'', ys') \<Rightarrow> (returned, st'', xs' @ ys')))"
  by (induction xs arbitrary: st) (auto split: prod.splits bool.splits)

lemma resolveEntities_returned_dead:
  "resolveEntities inp dt off prev st es = (True, (p', r'), es') \<Longrightarrow>
     isAlive p' = False"
proof (induction es arbitrary: st es')
  case Nil
  then show ?case by simp
next
  case (Cons e es)
  obtain p r where st: "st = (p, r)" by (cases st)
  show ?case
  proof (cases "e_type e = ''spike'' \<and> checkSpikeCollision r off e")
    case True
    then have "resolveEntity inp dt off prev (p, r) e = (True, (die p, r), updateCooldown dt e)"
      by (simp add: resolveEntity_spike_hit)
    with Cons.prems st show ?thesis by (simp add: die_def) auto
  next
    case False
    then have "fst (resolveEntity inp dt off prev (p, r) e) = False"
      by (auto simp: resolveEntity_def Let_def updateCooldown_kept
          checkSpikeCollision_updateCooldown)
    with Cons.prems st Cons.IH show ?thesis
      by (auto split: prod.splits bool.splits)
  qed
qed

lemma resolveSegments_returned_dead:
  "resolveSegments inp dt prev vs ve st segs = (True, (p', r'), segs') \<Longrightarrow>
     isAlive p' = False"
proof (induction segs arbitrary: st segs')
  case Nil
  then show ?case by simp
next
  case (Cons seg segs)
  show ?case
  proof (cases "segment_end seg < vs \<or> offset seg > ve")
    case True
    with Cons.prems Cons.IH show ?thesis
      by (auto split: prod.splits)
  next
    case False
    obtain ret st1 es' where r: "resolveEntities inp dt (offset seg) prev st (entities seg)
        = (ret, st1, es')"
      by (cases "resolveEntities inp dt (offset seg) prev st (entities seg)")
    show ?thesis
    proof (cases ret)
      case True
      with r Cons.prems False have "st1 = (p', r')" by auto
      with r True have "resolveEntities inp dt (offset seg) prev st (entities seg)
          = (True, (p', r'), es')"
        by simp
      then show ?thesis by (rule resolveEntities_returned_dead)
    next
      case ret: False
      with r Cons.prems False Cons.IH show ?thesis
        by (auto split: prod.splits)
    qed
  qed
qed

lemma resolveSegments_spike_hit:
  assumes visible: "\<not> (segment_end seg < vs \<or> offset seg > ve)"
    and before: "resolveEntities inp dt (offset seg) prev st before = (False, (p, r), before')"
    and spike: "e_type e = ''spike''" "checkSpikeCollision r (offset seg) e"
    and ents: "entities seg = before @ e # es"
  shows "resolveSegments inp dt prev vs ve st (seg # segs) =
     (True, (die p, r), seg\<lparr>entities := before' @ updateCooldown dt e # es\<rparr> # segs)"
proof -
  have "resolveEntities inp dt (offset seg) prev (p, r) (e # es)
      = (True, (die p, r), updateCooldown dt e # es)"
    using spike by (simp add: resolveEntity_spike_hit)
  then have "resolveEntities inp dt (offset seg) prev st (entities seg)
      = (True, (die p, r), before' @ updateCooldown dt e # es)"
    unfolding ents resolveEntities_append using before by simp
  then show ?thesis
    using visible by simp
qed

lemma resolvePlayer_returned:
  assumes "resolveSegments inp dt (getPreviousBounds p0)
       (scrollX l - recycleMargin l) (scrollX l + viewportWorldWidth l + recycleMargin l)
       (preClamp p0) (activeSegments l) = (True, (p', r'), segs')"
  shows "resolvePlayer inp dt l p0 = (p', l\<lparr>activeSegments := segs'\<rparr>)"
  using assms by (simp add: resolvePlayer_def Let_def)

text \<open>
  C4. A spike collision registers exactly when the rectangles intersect and the player's
  edge has crossed the sloped line (for a spike of nonzero width, where the line is
  defined): for orientation \<open>up\<close>,
  \<open>playerRect.bottom \<ge> rect.bottom - |relativeX - 0.5| * height * 2\<close>. A colliding
  spike kills the player and ends \<open>resolvePlayer\<close> there: the entities and segments after
  it are left as they were, and the closing floor and ceiling checks are skipped. A
  player whose bottom is the rectangle's bottom at \<open>relativeX = 0.5\<close> collides; a player
  wholly above the rectangle does not.
\<close>

theorem spike_collision:
  "(e_width e \<noteq> 0 \<longrightarrow>
      (checkSpikeCollision r off e \<longleftrightarrow>
         intersects r (entityRect off e) \<and>
         (if e_orientation e = ''up''
          then rect_bottom r \<ge> rect_bottom (entityRect off e)
                 - \<bar>(rect_centerX r - rect_left (entityRect off e))
                      / rect_width (entityRect off e) - 0.5\<bar>
                   * rect_height (entityRect off e) * 2
          else rect_top r \<le> rect_top (entityRect off e)
                 + \<bar>(rect_centerX r - rect_left (entityRect off e))
                      / rect_width (entityRect off e) - 0.5\<bar>
                   * rect_height (entityRect off e) * 2)))
   \<and> (e_type e = ''spike'' \<and> checkSpikeCollision r off e \<longrightarrow>
        resolveEntities inp dt off prev (p, r) (e # es)
          = (True, (die p, r), updateCooldown dt e # es)
        \<and> \<not> isAlive (die p))
   \<and> (e_type e = ''spike'' \<and> checkSpikeCollision r (offset seg) e
        \<and> \<not> (segment_end seg < vs \<or> offset seg > ve)
        \<and> entities seg = before @ e # es
        \<and> resolveEntities inp dt (offset seg) prev st before = (False, (p, r), before') \<longrightarrow>
        resolveSegments inp dt prev vs ve st (seg # segs)
          = (True, (die p, r), seg\<lparr>entities := before' @ updateCooldown dt e # es\<rparr> # segs))
   \<and> (resolveSegments inp dt (getPreviousBounds q)
         (scrollX l - recycleMargin l) (scrollX l + viewportWorldWidth l + recycleMargin l)
         (preClamp q) (activeSegments l) = (True, (p', r'), segs') \<longrightarrow>
        resolvePlayer inp dt l q = (p', l\<lparr>activeSegments := segs'\<rparr>) \<and> \<not> isAlive p')
   \<and> (e_orientation e = ''up'' \<and> 0 < e_width e \<and> 0 < e_height e
        \<and> 0 < rect_width r \<and> 0 < rect_height r
        \<and> rect_bottom r = rect_bottom (entityRect off e)
        \<and> (rect_centerX r - rect_left (entityRect off e)) / rect_width (entityRect off e) = 0.5 \<longrightarrow>
        checkSpikeCollision r off e)
   \<and> (rect_bottom r \<le> rect_top (entityRect off e) \<longrightarrow> \<not> checkSpikeCollision r off e)"
proof -
  have slope: "e_width e \<noteq> 0 \<longrightarrow>
      (checkSpikeCollision r off e \<longleftrightarrow>
         intersects r (entityRect off e) \<and>
         (if e_orientation e = ''up''
          then rect_bottom r \<ge> rect_bottom (entityRect off e)
                 - \<bar>(rect_centerX r - rect_left (entityRect off e))
                      / rect_width (entityRect off e) - 0.5\<bar>
                   * rect_height (entityRect off e) * 2
          else rect_top r \<le> rect_top (entityRect off e)
                 + \<bar>(rect_centerX r - rect_left (entityRect off e))
                      / rect_width (entityRect off e) - 0.5\<bar>
                   * rect_height (entityRect off e) * 2))"
    using checkSpikeCollision_slope by blast
  have kill: "e_type e = ''spike'' \<and> checkSpikeCollision r off e \<longrightarrow>
        resolveEntities inp dt off prev (p, r) (e # es)
          = (True, (die p, r), updateCooldown dt e # es)
        \<and> \<not> isAlive (die p)"
    by (simp add: resolveEntity_spike_hit die_def)
  have segment: "e_type e = ''spike'' \<and> checkSpikeCollision r (offset seg) e
        \<and> \<not> (segment_end seg < vs \<or> offset seg > ve)
        \<and> entities seg = before @ e # es
        \<and> resolveEntities inp dt (offset seg) prev st before = (False, (p, r), before') \<longrightarrow>
        resolveSegments inp dt prev vs ve st (seg # segs)
          = (True, (die p, r), seg\<lparr>entities := before' @ updateCooldown dt e # es\<rparr> # segs)"
    using resolveSegments_spike_hit by blast
  have frame: "resolveSegments inp dt (getPreviousBounds q)
         (scrollX l - recycleMargin l) (scrollX l + viewportWorldWidth l + recycleMargin l)
         (preClamp q) (activeSegments l) = (True, (p', r'), segs') \<longrightarrow>
        resolvePlayer inp dt l q = (p', l\<lparr>activeSegments := segs'\<rparr>) \<and> \<not> isAlive p'"
    using resolvePlayer_returned resolveSegments_returned_dead by blast
  have centre: "e_orientation e = ''up'' \<and> 0 < e_width e \<and> 0 < e_height e
        \<and> 0 < rect_width r \<and> 0 < rect_height r
        \<and> rect_bottom r = rect_bottom (entityRect off e)
        \<and> (rect_centerX r - rect_left (entityRect off e)) / rect_width (entityRect off e) = 0.5 \<longrightarrow>
        checkSpikeCollision r off e"
    using checkSpikeCollision_centre by blast
  have above: "rect_bottom r \<le> rect_top (entityRect off e) \<longrightarrow> \<not> checkSpikeCollision r off e"
    using checkSpikeCollision_above by blast
  from slope kill segment frame centre above show ?thesis
    by (intro conjI)
qed

lemma first_spike_fields:
  "e_type first_spike = ''spike''" "e_width first_spike = 64" "e_height first_spike = 64"
  "e_orientation first_spike = ''up''" "e_cooldown first_spike = 0"
  "entityRect 0 first_spike = Rectangle 540 536 64 64"
  by (simp_all add: first_spike_def new_SegmentEntity_def spike_bp_def rect_bp_def nullish_def
      entityRect_def FLOOR_Y_def WORLD_HEIGHT_def)

lemma first_segment_entities:
  "entities (library_segment 0 0) =
     [new_SegmentEntity (platform_bp 280 (FLOOR_Y - 160) 200 32),
      new_SegmentEntity (platform_bp 620 (FLOOR_Y - 220) 220 32),
      new_SegmentEntity (platform_bp 940 (FLOOR_Y - 320) 180 32)]
     @ first_spike #
     [new_SegmentEntity (spike_bp 860 (FLOOR_Y - 64) 64 64 ''up''),
      new_SegmentEntity (booster_bp 320 (FLOOR_Y - 120) 80 80 1.35 1.2 0.55),
      new_SegmentEntity (orb_bp 720 (FLOOR_Y - 240) 28 1050 0.35),
      new_SegmentEntity (portal_bp 1120 (FLOOR_Y - 200) 64 200 (- 1) 1)]"
  by (simp add: library_segment_def LevelSegment_reset_def new_LevelSegment_def
      SEGMENT_LIBRARY_def first_spike_def SegmentEntity_reset_def new_SegmentEntity_def)

lemma first_segment_place:
  "offset (library_segment 0 0) = 0" "segment_end (library_segment 0 0) = 1400"
  by (simp_all add: library_segment_def LevelSegment_reset_def new_LevelSegment_def
      SEGMENT_LIBRARY_def segment_end_def)

lemma on_spike_bounds:
  "getBounds (player_at 572 568) = Rectangle 540 536 64 64"
  "getPreviousBounds (player_at 572 568) = Rectangle 540 536 64 64"
  "preClamp (player_at 572 568) = (land FLOOR_Y (player_at 572 568), Rectangle 540 536 64 64)"
  by (simp_all add: player_at_def new_Player_def getBounds_def getPreviousBounds_def
      halfSize_def PLAYER_SIZE_def FLOOR_Y_def WORLD_HEIGHT_def preClamp_def Let_def land_def
      Rectangle_def rect_bottom_def)

lemma platform_missed:
  assumes "e_type e = ''platform''" and "\<not> intersects r (entityRect off e)"
  shows "resolveEntity inp dt off prev (p, r) e = (False, (p, r), updateCooldown dt e)"
  using assms
  by (simp add: resolveEntity_def Let_def updateCooldown_kept resolvePlatform_def)

lemma idle_cooldown: "e_cooldown e = 0 \<Longrightarrow> updateCooldown dt e = e"
  by (simp add: updateCooldown_def)

lemma before_spike:
  "resolveEntities inp dt 0 prev (p, Rectangle 540 536 64 64)
     [new_SegmentEntity (platform_bp 280 (FLOOR_Y - 160) 200 32),
      new_SegmentEntity (platform_bp 620 (FLOOR_Y - 220) 220 32),
      new_SegmentEntity (platform_bp 940 (FLOOR_Y - 320) 180 32)]
   = (False, (p, Rectangle 540 536 64 64),
     [new_SegmentEntity (platform_bp 280 (FLOOR_Y - 160) 200 32),
      new_SegmentEntity (platform_bp 620 (FLOOR_Y - 220) 220 32),
      new_SegmentEntity (platform_bp 940 (FLOOR_Y - 320) 180 32)])"
proof -
  have miss: "resolveEntity inp dt 0 prev (p, Rectangle 540 536 64 64)
        (new_SegmentEntity (platform_bp x y w h))
      = (False, (p, Rectangle 540 536 64 64), new_SegmentEntity (platform_bp x y w h))"
    if "\<not> intersects (Rectangle 540 536 64 64) (Rectangle x y w h)" for x y w h
  proof -
    have "resolveEntity inp dt 0 prev (p, Rectangle 540 536 64 64)
        (new_SegmentEntity (platform_bp x y w h))
      = (False, (p, Rectangle 540 536 64 64),
         updateCooldown dt (new_SegmentEntity (platform_bp x y w h)))"
      using that
      by (intro platform_missed)
         (simp_all add: new_SegmentEntity_def platform_bp_def rect_bp_def entityRect_def
           nullish_def)
    then show ?thesis
      by (simp add: idle_cooldown new_SegmentEntity_def)
  qed
  have "\<not> intersects (Rectangle 540 536 64 64) (Rectangle 280 (FLOOR_Y - 160) 200 32)"
       "\<not> intersects (Rectangle 540 536 64 64) (Rectangle 620 (FLOOR_Y - 220) 220 32)"
       "\<not> intersects (Rectangle 540 536 64 64) (Rectangle 940 (FLOOR_Y - 320) 180 32)"
    by (simp_all add: intersects_def Rectangle_def rect_left_def rect_right_def rect_top_def
        rect_bottom_def FLOOR_Y_def WORLD_HEIGHT_def)
  then show ?thesis
    by (simp add: miss)
qed

theorem spike_collision_witness:
  "e_type first_spike = ''spike''
   \<and> e_width first_spike \<noteq> 0
   \<and> e_orientation first_spike = ''up''
   \<and> rect_bottom (getBounds (player_at 572 568)) = rect_bottom (entityRect 0 first_spike)
   \<and> (rect_centerX (getBounds (player_at 572 568)) - rect_left (entityRect 0 first_spike))
        / rect_width (entityRect 0 first_spike) = 0.5
   \<and> checkSpikeCollision (getBounds (player_at 572 568)) 0 first_spike
   \<and> rect_bottom (getBounds (player_at 572 400)) \<le> rect_top (entityRect 0 first_spike)
   \<and> \<not> checkSpikeCollision (getBounds (player_at 572 400)) 0 first_spike
   \<and> resolvePlayer no_input (1 / 60) fresh_level (player_at 572 568)
       = (die (land FLOOR_Y (player_at 572 568)), fresh_level)
   \<and> \<not> isAlive (fst (resolvePlayer no_input (1 / 60) fresh_level (player_at 572 568)))"
proof -
  let ?r = "Rectangle 540 536 64 64"
  let ?start = "player_at 572 568"
  let ?p = "land FLOOR_Y ?start"
  let ?seg = "library_segment 0 0"
  let ?before = "[new_SegmentEntity (platform_bp 280 (FLOOR_Y - 160) 200 32),
      new_SegmentEntity (platform_bp 620 (FLOOR_Y - 220) 220 32),
      new_SegmentEntity (platform_bp 940 (FLOOR_Y - 320) 180 32)]"
  let ?es = "[new_SegmentEntity (spike_bp 860 (FLOOR_Y - 64) 64 64 ''up''),
      new_SegmentEntity (booster_bp 320 (FLOOR_Y - 120) 80 80 1.35 1.2 0.55),
      new_SegmentEntity (orb_bp 720 (FLOOR_Y - 240) 28 1050 0.35),
      new_SegmentEntity (portal_bp 1120 (FLOOR_Y - 200) 64 200 (- 1) 1)]"
  let ?segs = "[library_segment 1 1400, library_segment 2 2600, library_segment 3 3960]"
  let ?vs = "scrollX fresh_level - recycleMargin fresh_level"
  let ?ve = "scrollX fresh_level + viewportWorldWidth fresh_level + recycleMargin fresh_level"
  note inst = spike_collision [where e = first_spike and r = ?r and off = 0 and p = ?p
      and seg = ?seg and vs = ?vs and ve = ?ve and before = ?before and es = ?es
      and st = "preClamp ?start" and before' = ?before and segs = ?segs and inp = no_input
      and dt = "1 / 60" and prev = "getPreviousBounds ?start" and q = ?start
      and l = fresh_level and p' = "die ?p" and r' = ?r
      and segs' = "?seg\<lparr>entities := ?before @ updateCooldown (1 / 60) first_spike # ?es\<rparr> # ?segs"]
  have bottom: "rect_bottom ?r = rect_bottom (entityRect 0 first_spike)"
    by (simp add: first_spike_fields)
  have centre: "(rect_centerX ?r - rect_left (entityRect 0 first_spike))
        / rect_width (entityRect 0 first_spike) = 0.5"
    by (simp add: first_spike_fields Rectangle_def rect_centerX_def rect_left_def)
  have size: "0 < rect_width ?r" "0 < rect_height ?r"
    by (simp_all add: Rectangle_def)
  have spike: "e_type first_spike = ''spike''" "e_orientation first_spike = ''up''"
      "0 < e_width first_spike" "0 < e_height first_spike" "e_width first_spike \<noteq> 0"
    by (simp_all add: first_spike_fields)
  have hit: "checkSpikeCollision ?r 0 first_spike"
    using inst spike size bottom centre by blast
  have off0: "offset ?seg = 0"
    by (simp add: first_segment_place)
  have visible: "\<not> (segment_end ?seg < ?vs \<or> offset ?seg > ?ve)"
    by (simp add: first_segment_place fresh_level_def new_Level_def)
  have ents: "entities ?seg = ?before @ first_spike # ?es"
    by (rule first_segment_entities)
  have before: "resolveEntities no_input (1 / 60) (offset ?seg) (getPreviousBounds ?start)
      (preClamp ?start) ?before = (False, (?p, ?r), ?before)"
    unfolding off0 on_spike_bounds by (rule before_spike)
  have hit': "checkSpikeCollision ?r (offset ?seg) first_spike"
    unfolding off0 by (rule hit)
  have loop: "resolveSegments no_input (1 / 60) (getPreviousBounds ?start) ?vs ?ve (preClamp ?start)
        (?seg # ?segs)
      = (True, (die ?p, ?r),
         ?seg\<lparr>entities := ?before @ updateCooldown (1 / 60) first_spike # ?es\<rparr> # ?segs)"
    using inst spike(1) hit' visible ents before by blast
  have same: "?seg\<lparr>entities := ?before @ updateCooldown (1 / 60) first_spike # ?es\<rparr> = ?seg"
    unfolding idle_cooldown [OF first_spike_fields(5)] ents [symmetric] by simp
  have act: "activeSegments fresh_level = ?seg # ?segs"
    by (simp add: fresh_level_def)
  have loop': "resolveSegments no_input (1 / 60) (getPreviousBounds ?start) ?vs ?ve (preClamp ?start)
        (activeSegments fresh_level)
      = (True, (die ?p, ?r),
         ?seg\<lparr>entities := ?before @ updateCooldown (1 / 60) first_spike # ?es\<rparr> # ?segs)"
    unfolding act by (rule loop)
  have "resolvePlayer no_input (1 / 60) fresh_level ?start
      = (die ?p, fresh_level\<lparr>activeSegments :=
           ?seg\<lparr>entities := ?before @ updateCooldown (1 / 60) first_spike # ?es\<rparr> # ?segs\<rparr>)"
    using inst loop' by blast
  then have frame: "resolvePlayer no_input (1 / 60) fresh_level ?start = (die ?p, fresh_level)"
    unfolding same act [symmetric] by simp
  have dead: "\<not> isAlive (fst (resolvePlayer no_input (1 / 60) fresh_level ?start))"
    unfolding frame by (simp add: die_def)
  have above: "rect_bottom (getBounds (player_at 572 400)) \<le> rect_top (entityRect 0 first_spike)"
    by (simp add: first_spike_fields player_at_def new_Player_def getBounds_def halfSize_def
        PLAYER_SIZE_def Rectangle_def rect_bottom_def rect_top_def)
  have miss: "\<not> checkSpikeCollision (getBounds (player_at 572 400)) 0 first_spike"
    using spike_collision [where e = first_spike and r = "getBounds (player_at 572 400)"
        and off = 0] above
    by blast
  show ?thesis
    unfolding on_spike_bounds
    using spike(1,2,5) bottom centre hit above miss frame [unfolded on_spike_bounds]
      dead [unfolded on_spike_bounds]
    by (intro conjI)
qed

subsection \<open>The segment window\<close>

lemma LevelSegment_reset_fields:
  "offset (LevelSegment_reset off s) = off"
  "template (LevelSegment_reset off s) = template s"
  "segment_end (LevelSegment_reset off s) = off + tpl_width (template s)"
  by (simp_all add: LevelSegment_reset_def segment_end_def)

lemma new_LevelSegment_template: "template (new_LevelSegment t) = t"
  by (simp add: new_LevelSegment_def)

lemma reset_loop_empty: "reset_loop [] 0 off segs = Inl TypeError"
  by (simp add: reset_loop.simps)

lemma contiguous_tail: "contiguous (s # segs) \<Longrightarrow> contiguous segs"
  by (cases segs) simp_all

lemma contiguous_snoc:
  "contiguous segs \<Longrightarrow> (segs \<noteq> [] \<Longrightarrow> offset s = segment_end (last segs)) \<Longrightarrow>
     contiguous (segs @ [s])"
  by (induction segs rule: contiguous.induct) simp_all

lemma contiguous_nth:
  "contiguous segs \<longleftrightarrow>
     (\<forall>i. Suc i < length segs \<longrightarrow> offset (segs ! Suc i) = segment_end (segs ! i))"
proof (induction segs rule: contiguous.induct)
  case 1
  then show ?case by simp
next
  case (2 s)
  then show ?case by simp
next
  case (3 s t segs)
  have "(\<forall>i. Suc i < length (s # t # segs) \<longrightarrow>
           offset ((s # t # segs) ! Suc i) = segment_end ((s # t # segs) ! i))
        \<longleftrightarrow> offset t = segment_end s \<and>
            (\<forall>i. Suc i < length (t # segs) \<longrightarrow>
               offset ((t # segs) ! Suc i) = segment_end ((t # segs) ! i))"
    (is "?L \<longleftrightarrow> ?R")
  proof
    assume l: ?L
    have "offset t = segment_end s" using l [rule_format, of 0] by simp
    moreover have "offset ((t # segs) ! Suc i) = segment_end ((t # segs) ! i)"
      if "Suc i < length (t # segs)" for i
      using l [rule_format, of "Suc i"] that by simp
    ultimately show ?R by blast
  next
    assume r: ?R
    show ?L
    proof (intro allI impI)
      fix i assume "Suc i < length (s # t # segs)"
      then show "offset ((s # t # segs) ! Suc i) = segment_end ((s # t # segs) ! i)"
        using r by (cases i) auto
    qed
  qed
  with 3 show ?case by simp
qed

lemma reset_loop_window:
  "ts \<noteq> [] \<Longrightarrow> index \<le> 4 \<Longrightarrow> length segs = index \<Longrightarrow> contiguous segs \<Longrightarrow>
   (segs \<noteq> [] \<Longrightarrow> segment_end (last segs) = off) \<Longrightarrow>
   \<forall>s \<in> set segs. template s \<in> set ts \<Longrightarrow>
     \<exists>segs'. reset_loop ts index off segs = Inr segs' \<and> length segs' = 4
        \<and> contiguous segs' \<and> (\<forall>s \<in> set segs'. template s \<in> set ts)"
proof (induction ts index off segs rule: reset_loop.induct)
  case (1 ts index off segs)
  show ?case
  proof (cases "index < 4")
    case False
    with "1.prems" have "index = 4" by simp
    with "1.prems" show ?thesis by (simp add: reset_loop.simps)
  next
    case True
    define t where "t = ts ! (index mod length ts)"
    define segment where "segment = LevelSegment_reset off (new_LevelSegment t)"
    have t_in: "t \<in> set ts"
      using "1.prems"(1) by (simp add: t_def)
    have step: "reset_loop ts index off segs
        = reset_loop ts (index + 1) (off + tpl_width t) (segs @ [segment])"
      using True "1.prems"(1)
      by (subst reset_loop.simps) (simp add: Let_def t_def segment_def)
    have seg: "offset segment = off" "segment_end segment = off + tpl_width t"
        "template segment = t"
      by (simp_all add: segment_def LevelSegment_reset_fields new_LevelSegment_template)
    have "\<exists>segs'. reset_loop ts (index + 1) (off + tpl_width t) (segs @ [segment]) = Inr segs'
        \<and> length segs' = 4 \<and> contiguous segs' \<and> (\<forall>s \<in> set segs'. template s \<in> set ts)"
    proof (rule "1.IH" [OF True _ t_def segment_def])
      show "ts \<noteq> []" by (rule "1.prems"(1))
      show "ts \<noteq> []" by (rule "1.prems"(1))
      show "index + 1 \<le> 4" using True by simp
      show "length (segs @ [segment]) = index + 1" using "1.prems"(3) by simp
      show "contiguous (segs @ [segment])"
        using "1.prems"(4,5) by (intro contiguous_snoc) (simp_all add: seg)
      show "segment_end (last (segs @ [segment])) = off + tpl_width t"
        by (simp add: seg)
      show "\<forall>s \<in> set (segs @ [segment]). template s \<in> set ts"
        using "1.prems"(6) t_in by (simp add: seg)
    qed
    then show ?thesis by (simp only: step)
  qed
qed

lemma Level_reset_window:
  assumes "templates l \<noteq> []"
  shows "\<exists>l0. Level_reset l = Inr l0 \<and> length (activeSegments l0) = 4
     \<and> contiguous (activeSegments l0)
     \<and> (\<forall>s \<in> set (activeSegments l0). template s \<in> set (templates l))
     \<and> templates l0 = templates l \<and> scrollX l0 = 0
     \<and> currentSpeed l0 = baseSpeed l \<and> baseSpeed l0 = baseSpeed l"
proof -
  obtain segs where "reset_loop (templates l) 0 0 [] = Inr segs" "length segs = 4"
      "contiguous segs" "\<forall>s \<in> set segs. template s \<in> set (templates l)"
    using reset_loop_window [of "templates l" 0 "[]" 0] assms by auto
  then show ?thesis
    by (simp add: Level_reset_def Let_def)
qed

lemma Level_reset_error:
  "templates l = [] \<Longrightarrow> Level_reset l = Inl TypeError"
  by (simp add: Level_reset_def Let_def reset_loop_empty)

lemma pickNextTemplate_in: "pickNextTemplate ts r = Some t \<Longrightarrow> t \<in> set ts"
  by (auto simp: pickNextTemplate_def Let_def split: if_splits)

lemma pickNextTemplate_some:
  assumes "ts \<noteq> []" and "0 \<le> r" and "r < 1"
  shows "\<exists>t. pickNextTemplate ts r = Some t"
proof -
  have pos: "0 < real (length ts)" using assms(1) by simp
  have "0 \<le> r * real (length ts)" using assms(2) by simp
  then have lo: "0 \<le> \<lfloor>r * real (length ts)\<rfloor>" by simp
  have "r * real (length ts) < real (length ts)" using assms(3) pos by simp
  then have "\<lfloor>r * real (length ts)\<rfloor> < int (length ts)"
    by (simp add: floor_less_iff)
  with lo have "nat \<lfloor>r * real (length ts)\<rfloor> < length ts" by linarith
  with lo show ?thesis by (simp add: pickNextTemplate_def Let_def)
qed

text \<open>
  One pass of the recycling loop: it stops at a first segment that is not behind the
  threshold, throws when no template is picked, and else moves the first segment to the end.
\<close>

lemma recycle_stop:
  "segs = [] \<or> \<not> segment_end (hd segs) < thr \<Longrightarrow>
     recycle ts thr rng k segs = Some (Inr (segs, k))"
  by (subst recycle.simps) (auto split: list.splits)

lemma recycle_step:
  assumes "segment_end first < thr" and "pickNextTemplate ts (rng k) = Some t"
  shows "\<exists>moved. recycle ts thr rng k (first # rest) = recycle ts thr rng (Suc k) (rest @ [moved])
     \<and> template moved = t
     \<and> offset moved = (if rest = [] then offset first + tpl_width t else segment_end (last rest))"
proof -
  define recycled where "recycled =
    first\<lparr>template := t, entities := map new_SegmentEntity (tpl_entities t)\<rparr>"
  define moved where "moved = LevelSegment_reset
    (if rest = [] then segment_end recycled else segment_end (last rest)) recycled"
  have "recycle ts thr rng k (first # rest) = recycle ts thr rng (Suc k) (rest @ [moved])"
    using assms by (subst recycle.simps) (simp add: Let_def recycled_def moved_def)
  moreover have "template moved = t"
    by (simp add: moved_def recycled_def LevelSegment_reset_fields)
  moreover have "offset moved
      = (if rest = [] then offset first + tpl_width t else segment_end (last rest))"
    by (simp add: moved_def recycled_def LevelSegment_reset_fields segment_end_def)
  ultimately show ?thesis by blast
qed

lemma recycle_error:
  assumes "segment_end first < thr" and "pickNextTemplate ts (rng k) = None"
  shows "recycle ts thr rng k (first # rest) = Some (Inl TypeError)"
  using assms by (subst recycle.simps) simp

lemma recycle_result:
  assumes "recycle ts thr rng k segs = Some y"
  shows "case y of
        Inl e \<Rightarrow> True
      | Inr (segs', k') \<Rightarrow>
          length segs' = length segs \<and> (contiguous segs \<longrightarrow> contiguous segs')"
  apply (rule recycle.raw_induct [where P = "\<lambda>ts thr rng k segs y. case y of
        Inl e \<Rightarrow> True
      | Inr (segs', k') \<Rightarrow>
          length segs' = length segs \<and> (contiguous segs \<longrightarrow> contiguous segs')",
        OF _ assms])
  subgoal premises prems for recycle' ts thr rng k segs y
  proof -
    note ih = prems(1) and body = prems(2)
    show ?thesis
    proof (cases segs)
      case Nil
      with body show ?thesis by auto
    next
      case (Cons first rest)
      show ?thesis
      proof (cases "segment_end first < thr")
        case False
        with body Cons show ?thesis by auto
      next
        case True
        show ?thesis
        proof (cases "pickNextTemplate ts (rng k)")
          case None
          with body Cons True show ?thesis by auto
        next
          case (Some t)
          define recycled where "recycled =
            first\<lparr>template := t, entities := map new_SegmentEntity (tpl_entities t)\<rparr>"
          define moved where "moved = LevelSegment_reset
            (if rest = [] then segment_end recycled else segment_end (last rest)) recycled"
          have call: "recycle' ts thr rng (Suc k) (rest @ [moved]) = Some y"
            using body Cons True Some
            by (cases "rest = []") (simp_all add: Let_def recycled_def moved_def)
          have step: "contiguous (rest @ [moved])" if "contiguous segs"
          proof (rule contiguous_snoc)
            show "contiguous rest" using that Cons contiguous_tail by blast
            show "offset moved = segment_end (last rest)" if "rest \<noteq> []"
              using that by (simp add: moved_def LevelSegment_reset_fields)
          qed
          from ih [OF call] step Cons show ?thesis
            by (auto split: sum.splits)
        qed
      qed
    qed
  qed
  done

lemma recycle_window:
  "recycle ts thr rng k segs = Some (Inr (segs', k')) \<Longrightarrow>
     length segs' = length segs \<and> (contiguous segs \<longrightarrow> contiguous segs')"
  using recycle_result [of ts thr rng k segs "Inr (segs', k')"] by simp

lemma recycle_returns:
  assumes m: "0 < m" "\<forall>t \<in> set ts. m \<le> tpl_width t"
    and rng: "\<forall>i. 0 \<le> rng i \<and> rng i < 1"
    and ts: "ts \<noteq> []"
  shows "contiguous segs \<Longrightarrow> \<forall>s \<in> set segs. template s \<in> set ts \<Longrightarrow>
     (segs \<noteq> [] \<Longrightarrow> thr - offset (hd segs) \<le> real n * m) \<Longrightarrow>
     \<exists>segs' k'. recycle ts thr rng k segs = Some (Inr (segs', k'))
        \<and> (\<forall>s \<in> set segs'. template s \<in> set ts)"
proof (induction n arbitrary: segs k)
  case 0
  have "segs = [] \<or> \<not> segment_end (hd segs) < thr"
  proof (cases segs)
    case Nil
    then show ?thesis by simp
  next
    case (Cons first rest)
    then have "m \<le> tpl_width (template first)" using "0.prems"(2) m(2) by simp
    moreover have "thr - offset first \<le> 0" using "0.prems"(3) Cons by simp
    ultimately show ?thesis using m(1) Cons by (simp add: segment_end_def)
  qed
  then have "recycle ts thr rng k segs = Some (Inr (segs, k))" by (rule recycle_stop)
  with "0.prems"(2) show ?case by simp
next
  case (Suc n)
  show ?case
  proof (cases "segs = [] \<or> \<not> segment_end (hd segs) < thr")
    case True
    then have "recycle ts thr rng k segs = Some (Inr (segs, k))" by (rule recycle_stop)
    with Suc.prems(2) show ?thesis by simp
  next
    case False
    then obtain first rest where segs: "segs = first # rest" and behind: "segment_end first < thr"
      by (cases segs) auto
    obtain t where t: "pickNextTemplate ts (rng k) = Some t"
      using pickNextTemplate_some [OF ts] rng by blast
    have t_in: "t \<in> set ts" using t by (rule pickNextTemplate_in)
    obtain moved where step: "recycle ts thr rng k (first # rest)
          = recycle ts thr rng (Suc k) (rest @ [moved])"
      and moved: "template moved = t"
        "offset moved = (if rest = [] then offset first + tpl_width t else segment_end (last rest))"
      using recycle_step [where rng = rng and k = k, OF behind t] by blast
    have wide: "m \<le> tpl_width (template first)" "m \<le> tpl_width t"
      using Suc.prems(2) m(2) segs t_in by simp_all
    have "\<exists>segs' k'. recycle ts thr rng (Suc k) (rest @ [moved]) = Some (Inr (segs', k'))
        \<and> (\<forall>s \<in> set segs'. template s \<in> set ts)"
    proof (rule Suc.IH)
      show "contiguous (rest @ [moved])"
      proof (rule contiguous_snoc)
        show "contiguous rest" using Suc.prems(1) segs contiguous_tail by blast
        show "offset moved = segment_end (last rest)" if "rest \<noteq> []"
          using that moved(2) by simp
      qed
      show "\<forall>s \<in> set (rest @ [moved]). template s \<in> set ts"
        using Suc.prems(2) segs moved(1) t_in by simp
      show "thr - offset (hd (rest @ [moved])) \<le> real n * m"
      proof -
        have "offset first + m \<le> offset (hd (rest @ [moved]))"
        proof (cases rest)
          case Nil
          then show ?thesis using moved(2) wide(2) by simp
        next
          case (Cons second rest')
          then have "offset second = segment_end first"
            using Suc.prems(1) segs by simp
          then show ?thesis using Cons wide(1) by (simp add: segment_end_def)
        qed
        moreover have "thr - offset first \<le> real (Suc n) * m"
          using Suc.prems(3) segs by simp
        ultimately show ?thesis by (simp add: algebra_simps)
      qed
    qed
    then show ?thesis by (simp add: segs step)
  qed
qed

lemma least_width:
  assumes "ts \<noteq> []" and "\<forall>t \<in> set ts. 0 < tpl_width t"
  obtains m where "0 < m" and "\<forall>t \<in> set ts. m \<le> tpl_width t"
proof
  let ?m = "Min (tpl_width ` set ts)"
  have "?m \<in> tpl_width ` set ts" using assms(1) by (intro Min_in) simp_all
  then show "0 < ?m" using assms(2) by auto
  show "\<forall>t \<in> set ts. ?m \<le> tpl_width t" by simp
qed

lemma recycle_total:
  assumes "ts \<noteq> []" and "\<forall>t \<in> set ts. 0 < tpl_width t"
    and "\<forall>i. 0 \<le> rng i \<and> rng i < 1"
    and "contiguous segs" and "\<forall>s \<in> set segs. template s \<in> set ts"
  shows "\<exists>segs' k'. recycle ts thr rng k segs = Some (Inr (segs', k'))
     \<and> length segs' = length segs \<and> contiguous segs'
     \<and> (\<forall>s \<in> set segs'. template s \<in> set ts)"
proof -
  obtain m where m: "0 < m" "\<forall>t \<in> set ts. m \<le> tpl_width t"
    using least_width [OF assms(1,2)] by blast
  obtain n where "(thr - offset (hd segs)) / m \<le> real n"
    using real_arch_simple by blast
  then have n: "thr - offset (hd segs) \<le> real n * m"
    using m(1) by (simp add: field_simps)
  obtain segs' k' where r: "recycle ts thr rng k segs = Some (Inr (segs', k'))"
      "\<forall>s \<in> set segs'. template s \<in> set ts"
    using recycle_returns [OF m assms(3) assms(1) assms(4,5), of thr n k] n by blast
  with recycle_window [OF r(1)] assms(4) show ?thesis by simp
qed

lemma Level_update_Inr:
  "Level_update dt p rng k l = Some (Inr (l', k')) \<longleftrightarrow>
     (\<exists>segs.
        recycle (templates l)
          (scrollX l
             + (currentSpeed l
                  + (baseSpeed l * speedMultiplier p - currentSpeed l) * (1 - exp (- dt * 6))) * dt
             - recycleMargin l)
          rng k (activeSegments l) = Some (Inr (segs, k'))
        \<and> l' = l\<lparr>currentSpeed :=
                    currentSpeed l
                      + (baseSpeed l * speedMultiplier p - currentSpeed l) * (1 - exp (- dt * 6)),
                  scrollX :=
                    scrollX l
                      + (currentSpeed l
                           + (baseSpeed l * speedMultiplier p - currentSpeed l)
                               * (1 - exp (- dt * 6))) * dt,
                  activeSegments := segs\<rparr>)"
  by (auto simp: Level_update_def Let_def split: option.splits sum.splits)

lemma Level_update_window:
  assumes "Level_update dt p rng k l = Some (Inr (l', k'))"
  shows "length (activeSegments l') = length (activeSegments l)"
    and "contiguous (activeSegments l) \<Longrightarrow> contiguous (activeSegments l')"
    and "templates l' = templates l"
  using assms recycle_window unfolding Level_update_Inr by fastforce+

lemma Level_updates_window:
  "Level_updates steps rng k l = Some (Inr (l', k')) \<Longrightarrow>
     length (activeSegments l') = length (activeSegments l)
     \<and> (contiguous (activeSegments l) \<longrightarrow> contiguous (activeSegments l'))"
proof (induction steps arbitrary: k l)
  case Nil
  then show ?case by simp
next
  case (Cons step steps)
  obtain dt p where step: "step = (dt, p)" by (cases step)
  from Cons.prems obtain l1 k1 where one: "Level_update dt p rng k l = Some (Inr (l1, k1))"
    and rest: "Level_updates steps rng k1 l1 = Some (Inr (l', k'))"
    by (auto simp: step split: option.splits sum.splits)
  from Cons.IH [OF rest] Level_update_window [OF one] show ?case by simp
qed

lemma Level_update_total:
  assumes "templates l \<noteq> []" and "\<forall>t \<in> set (templates l). 0 < tpl_width t"
    and "\<forall>i. 0 \<le> rng i \<and> rng i < 1"
    and "contiguous (activeSegments l)"
    and "\<forall>s \<in> set (activeSegments l). template s \<in> set (templates l)"
  shows "\<exists>l' k'. Level_update dt p rng k l = Some (Inr (l', k'))
     \<and> templates l' = templates l \<and> contiguous (activeSegments l')
     \<and> (\<forall>s \<in> set (activeSegments l'). template s \<in> set (templates l'))"
proof -
  let ?thr = "scrollX l
             + (currentSpeed l
                  + (baseSpeed l * speedMultiplier p - currentSpeed l) * (1 - exp (- dt * 6))) * dt
             - recycleMargin l"
  obtain segs k' where "recycle (templates l) ?thr rng k (activeSegments l) = Some (Inr (segs, k'))"
      "contiguous segs" "\<forall>s \<in> set segs. template s \<in> set (templates l)"
    using recycle_total [OF assms, of ?thr k] by blast
  then show ?thesis
    by (simp add: Level_update_def Let_def)
qed

lemma Level_updates_total:
  "templates l \<noteq> [] \<Longrightarrow> \<forall>t \<in> set (templates l). 0 < tpl_width t \<Longrightarrow>
   \<forall>i. 0 \<le> rng i \<and> rng i < 1 \<Longrightarrow> contiguous (activeSegments l) \<Longrightarrow>
   \<forall>s \<in> set (activeSegments l). template s \<in> set (templates l) \<Longrightarrow>
     \<exists>l' k'. Level_updates steps rng k l = Some (Inr (l', k'))"
proof (induction steps arbitrary: k l)
  case Nil
  then show ?case by simp
next
  case (Cons step steps)
  obtain dt p where step: "step = (dt, p)" by (cases step)
  obtain l1 k1 where one: "Level_update dt p rng k l = Some (Inr (l1, k1))"
    and kept: "templates l1 = templates l" "contiguous (activeSegments l1)"
      "\<forall>s \<in> set (activeSegments l1). template s \<in> set (templates l1)"
    using Level_update_total [OF Cons.prems, of dt p k] by blast
  have "\<exists>l' k'. Level_updates steps rng k1 l1 = Some (Inr (l', k'))"
    using Cons.prems kept by (intro Cons.IH) simp_all
  then show ?case by (simp add: step one)
qed

subsection \<open>A run of the level over the segment library\<close>

lemma library_widths:
  "tpl_width (SEGMENT_LIBRARY ! 0) = 1400" "tpl_width (SEGMENT_LIBRARY ! Suc 0) = 1200"
  "tpl_width (SEGMENT_LIBRARY ! 2) = 1360" "tpl_width (SEGMENT_LIBRARY ! 3) = 1280"
  "tpl_width (SEGMENT_LIBRARY ! Suc (Suc 0)) = 1360"
  "tpl_width (SEGMENT_LIBRARY ! Suc (Suc (Suc 0))) = 1280"
  "length SEGMENT_LIBRARY = 4" "SEGMENT_LIBRARY \<noteq> []"
  "\<forall>t \<in> set SEGMENT_LIBRARY. 0 < tpl_width t"
  by (simp_all add: SEGMENT_LIBRARY_def)

lemma library_segment_fields:
  "offset (library_segment i off) = off"
  "template (library_segment i off) = SEGMENT_LIBRARY ! i"
  "segment_end (library_segment i off) = off + tpl_width (SEGMENT_LIBRARY ! i)"
  by (simp_all add: library_segment_def LevelSegment_reset_fields new_LevelSegment_template)

lemma library_segment_recycled:
  fixes s :: level_segment
  shows "LevelSegment_reset off
     (s\<lparr>template := SEGMENT_LIBRARY ! i,
        entities := map new_SegmentEntity (tpl_entities (SEGMENT_LIBRARY ! i))\<rparr>)
   = library_segment i off"
  by (cases s) (simp add: library_segment_def LevelSegment_reset_def new_LevelSegment_def)

lemma reset_loop_step:
  assumes "index < 4" and "index mod length ts = i" and "ts \<noteq> []"
  shows "reset_loop ts index off segs =
     reset_loop ts (Suc index) (off + tpl_width (ts ! i))
       (segs @ [LevelSegment_reset off (new_LevelSegment (ts ! i))])"
  using assms by (subst reset_loop.simps) (simp add: Let_def)

lemma Level_reset_fresh: "Level_reset (new_Level SEGMENT_LIBRARY) = Inr fresh_level"
proof -
  note lib = library_widths(7,8)
  have "reset_loop SEGMENT_LIBRARY 0 0 []
      = reset_loop SEGMENT_LIBRARY (Suc 0) 1400 [library_segment 0 0]"
    by (subst reset_loop_step [where i = 0])
       (simp_all add: library_widths library_segment_def)
  also have "\<dots> = reset_loop SEGMENT_LIBRARY (Suc (Suc 0)) 2600
      [library_segment 0 0, library_segment 1 1400]"
    by (subst reset_loop_step [where i = "Suc 0"])
       (simp_all add: library_widths library_segment_def)
  also have "\<dots> = reset_loop SEGMENT_LIBRARY (Suc (Suc (Suc 0))) 3960
      [library_segment 0 0, library_segment 1 1400, library_segment 2 2600]"
    by (subst reset_loop_step [where i = 2])
       (simp_all add: library_widths library_segment_def)
  also have "\<dots> = reset_loop SEGMENT_LIBRARY (Suc (Suc (Suc (Suc 0)))) 5240
      [library_segment 0 0, library_segment 1 1400, library_segment 2 2600,
       library_segment 3 3960]"
    by (subst reset_loop_step [where i = 3])
       (simp_all add: library_widths library_segment_def)
  also have "\<dots> = Inr [library_segment 0 0, library_segment 1 1400, library_segment 2 2600,
       library_segment 3 3960]"
    by (subst reset_loop.simps) simp
  finally show ?thesis
    by (simp add: Level_reset_def Let_def new_Level_def fresh_level_def)
qed

lemma recycle_unfold:
  assumes "segment_end first < thr" and "pickNextTemplate ts (rng k) = Some t"
    and "rest \<noteq> []"
  shows "recycle ts thr rng k (first # rest) =
     recycle ts thr rng (Suc k)
       (rest @ [LevelSegment_reset (segment_end (last rest))
          (first\<lparr>template := t, entities := map new_SegmentEntity (tpl_entities t)\<rparr>)])"
  using assms by (subst recycle.simps) (simp add: Let_def)

lemma pick_steady: "pickNextTemplate SEGMENT_LIBRARY (steady_rng k) = Some (SEGMENT_LIBRARY ! 2)"
  by (simp add: pickNextTemplate_def Let_def steady_rng_def library_widths)

lemma first_recycle:
  "Level_update 6 new_Player steady_rng 0 fresh_level = Some (Inr (recycled_level, Suc 0))"
proof -
  have speed: "currentSpeed fresh_level
      + (baseSpeed fresh_level * speedMultiplier new_Player - currentSpeed fresh_level)
          * (1 - exp (- 6 * 6)) = 360"
    by (simp add: fresh_level_def new_Level_def new_Player_def)
  have threshold: "scrollX fresh_level + 360 * 6 - recycleMargin fresh_level = 1520"
    by (simp add: fresh_level_def new_Level_def)
  have "recycle SEGMENT_LIBRARY 1520 steady_rng 0
        [library_segment 0 0, library_segment 1 1400, library_segment 2 2600,
         library_segment 3 3960]
      = recycle SEGMENT_LIBRARY 1520 steady_rng (Suc 0)
        [library_segment 1 1400, library_segment 2 2600, library_segment 3 3960,
         library_segment 2 5240]"
    by (subst recycle_unfold [OF _ pick_steady])
       (simp_all add: library_segment_fields library_widths library_segment_recycled)
  also have "\<dots> = Some (Inr ([library_segment 1 1400, library_segment 2 2600,
      library_segment 3 3960, library_segment 2 5240], Suc 0))"
    by (rule recycle_stop) (simp add: library_segment_fields library_widths)
  finally have loop: "recycle (templates fresh_level) 1520 steady_rng 0 (activeSegments fresh_level)
      = Some (Inr ([library_segment 1 1400, library_segment 2 2600,
      library_segment 3 3960, library_segment 2 5240], Suc 0))"
    by (simp add: fresh_level_def new_Level_def)
  show ?thesis
    unfolding Level_update_Inr speed threshold loop
    by (simp add: fresh_level_def new_Level_def recycled_level_def)
qed

lemma second_update:
  "Level_update (1 / 60) new_Player steady_rng (Suc 0) recycled_level
     = Some (Inr (recycled_level\<lparr>scrollX := 2166\<rparr>, Suc 0))"
proof -
  have speed: "currentSpeed recycled_level
      + (baseSpeed recycled_level * speedMultiplier new_Player - currentSpeed recycled_level)
          * (1 - exp (- (1 / 60) * 6)) = 360"
    by (simp add: recycled_level_def fresh_level_def new_Level_def new_Player_def)
  have threshold: "scrollX recycled_level + 360 * (1 / 60) - recycleMargin recycled_level = 1526"
    by (simp add: recycled_level_def fresh_level_def new_Level_def)
  have loop: "recycle (templates recycled_level) 1526 steady_rng (Suc 0)
        (activeSegments recycled_level)
      = Some (Inr (activeSegments recycled_level, Suc 0))"
    by (rule recycle_stop)
       (simp add: recycled_level_def library_segment_fields library_widths)
  show ?thesis
    unfolding Level_update_Inr speed threshold loop
    by (simp add: recycled_level_def fresh_level_def new_Level_def)
qed

text \<open>
  C2. After \<open>Level.reset\<close> there are exactly four active segments, each starting where
  the one before it ends, and every run of \<open>Level.update\<close> steps that returns keeps
  both: four segments, and \<open>segments[i+1].offset = segments[i].end\<close> for every adjacent
  pair. Over a template list that is not empty and whose widths are positive, with random
  numbers in \<open>[0,1)\<close>, reset and every such run do return.
\<close>

theorem segment_window_invariant:
  "(Level_reset l = Inr l0 \<longrightarrow>
      length (activeSegments l0) = 4
      \<and> (\<forall>i. Suc i < length (activeSegments l0) \<longrightarrow>
            offset (activeSegments l0 ! Suc i) = segment_end (activeSegments l0 ! i))
      \<and> (Level_updates steps rng k l0 = Some (Inr (l', k')) \<longrightarrow>
            length (activeSegments l') = 4
            \<and> (\<forall>i. Suc i < length (activeSegments l') \<longrightarrow>
                  offset (activeSegments l' ! Suc i) = segment_end (activeSegments l' ! i))))
   \<and> (templates l \<noteq> [] \<and> (\<forall>t \<in> set (templates l). 0 < tpl_width t)
        \<and> (\<forall>i. 0 \<le> rng i \<and> rng i < 1) \<longrightarrow>
        (\<exists>l1. Level_reset l = Inr l1
           \<and> (\<exists>l2 k2. Level_updates steps rng k l1 = Some (Inr (l2, k2)))))"
proof -
  have window: "length (activeSegments l0) = 4 \<and> contiguous (activeSegments l0)"
    if reset: "Level_reset l = Inr l0"
  proof -
    have "templates l \<noteq> []"
      using reset Level_reset_error [of l] by auto
    then show ?thesis
      using Level_reset_window [of l] reset by auto
  qed
  have kept: "length (activeSegments l') = 4 \<and> contiguous (activeSegments l')"
    if "Level_reset l = Inr l0" and "Level_updates steps rng k l0 = Some (Inr (l', k'))"
    using window [OF that(1)] Level_updates_window [OF that(2)] by simp
  have total: "\<exists>l1. Level_reset l = Inr l1
           \<and> (\<exists>l2 k2. Level_updates steps rng k l1 = Some (Inr (l2, k2)))"
    if h: "templates l \<noteq> [] \<and> (\<forall>t \<in> set (templates l). 0 < tpl_width t)
        \<and> (\<forall>i. 0 \<le> rng i \<and> rng i < 1)"
  proof -
    obtain l1 where l1: "Level_reset l = Inr l1" "contiguous (activeSegments l1)"
        "\<forall>s \<in> set (activeSegments l1). template s \<in> set (templates l)"
        "templates l1 = templates l"
      using Level_reset_window [of l] h by blast
    have "\<exists>l2 k2. Level_updates steps rng k l1 = Some (Inr (l2, k2))"
      using h l1 by (intro Level_updates_total) simp_all
    with l1(1) show ?thesis by blast
  qed
  show ?thesis
    using window kept total unfolding contiguous_nth by blast
qed

theorem segment_window_invariant_witness:
  "templates (new_Level SEGMENT_LIBRARY) \<noteq> []
   \<and> list_all (\<lambda>t. 0 < tpl_width t) (templates (new_Level SEGMENT_LIBRARY))
   \<and> 0 \<le> steady_rng 0 \<and> steady_rng 0 < 1
   \<and> Level_reset (new_Level SEGMENT_LIBRARY) = Inr fresh_level
   \<and> Level_updates [(6, new_Player), (1 / 60, new_Player)] steady_rng 0 fresh_level
       = Some (Inr (recycled_level\<lparr>scrollX := 2166\<rparr>, Suc 0))
   \<and> length (activeSegments (recycled_level\<lparr>scrollX := 2166\<rparr>)) = 4
   \<and> offset (activeSegments (recycled_level\<lparr>scrollX := 2166\<rparr>) ! 3)
       = segment_end (activeSegments (recycled_level\<lparr>scrollX := 2166\<rparr>) ! 2)
   \<and> offset (activeSegments (recycled_level\<lparr>scrollX := 2166\<rparr>) ! 3) = 5240"
proof -
  let ?l = "new_Level SEGMENT_LIBRARY"
  let ?steps = "[(6, new_Player), (1 / 60, new_Player)]"
  let ?end = "recycled_level\<lparr>scrollX := 2166\<rparr>"
  note inst = segment_window_invariant [of ?l fresh_level ?steps steady_rng 0 ?end "Suc 0"]
  have templates: "templates ?l \<noteq> []" "\<forall>t \<in> set (templates ?l). 0 < tpl_width t"
    using library_widths by (simp_all add: new_Level_def)
  have rng: "\<forall>i. 0 \<le> steady_rng i \<and> steady_rng i < 1"
    by (simp add: steady_rng_def)
  have reset: "Level_reset ?l = Inr fresh_level"
    by (rule Level_reset_fresh)
  have run: "Level_updates ?steps steady_rng 0 fresh_level = Some (Inr (?end, Suc 0))"
    by (simp add: first_recycle second_update)
  have four: "length (activeSegments ?end) = 4"
    and adjacent: "\<forall>i. Suc i < length (activeSegments ?end) \<longrightarrow>
        offset (activeSegments ?end ! Suc i) = segment_end (activeSegments ?end ! i)"
    using inst reset run by blast+
  have third: "offset (activeSegments ?end ! 3) = segment_end (activeSegments ?end ! 2)"
    using adjacent [rule_format, of 2] four by (simp add: numeral_3_eq_3)
  have last: "offset (activeSegments ?end ! 3) = 5240"
    by (simp add: recycled_level_def library_segment_fields)
  have pos: "list_all (\<lambda>t. 0 < tpl_width t) (templates ?l)"
    using templates(2) by (simp add: list_all_iff)
  have r0: "0 \<le> steady_rng 0" "steady_rng 0 < 1"
    using rng by blast+
  from templates(1) pos r0 reset run four third last show ?thesis
    by (intro conjI)
qed

subsection \<open>Scrolling\<close>

lemma smoothed_speed_positive:
  fixes cs target dt :: real
  assumes "0 < cs" and "0 \<le> target" and "0 \<le> dt"
  shows "0 < cs + (target - cs) * (1 - exp (- dt * 6))"
proof -
  let ?e = "exp (- dt * 6)"
  have e: "0 < ?e" "?e \<le> 1" using assms(3) by simp_all
  have "cs + (target - cs) * (1 - ?e) = cs * ?e + target * (1 - ?e)"
    by (simp add: algebra_simps)
  moreover have "0 < cs * ?e" using assms(1) e(1) by simp
  moreover have "0 \<le> target * (1 - ?e)" using assms(2) e(2) by simp
  ultimately show ?thesis by linarith
qed

lemma Level_update_scroll:
  assumes "0 < baseSpeed l" and "0 < currentSpeed l" and "1 \<le> speedMultiplier p"
    and "0 \<le> dt" and "Level_update dt p rng k l = Some (Inr (l', k'))"
  shows "scrollX l \<le> scrollX l'" and "0 < currentSpeed l'" and "baseSpeed l' = baseSpeed l"
proof -
  let ?cs = "currentSpeed l
      + (baseSpeed l * speedMultiplier p - currentSpeed l) * (1 - exp (- dt * 6))"
  have "0 \<le> baseSpeed l * speedMultiplier p" using assms(1,3) by simp
  then have pos: "0 < ?cs" using assms(2,4) by (intro smoothed_speed_positive)
  then have "0 \<le> ?cs * dt" using assms(4) by simp
  moreover from assms(5) have "scrollX l' = scrollX l + ?cs * dt" "currentSpeed l' = ?cs"
      "baseSpeed l' = baseSpeed l"
    unfolding Level_update_Inr by auto
  ultimately show "scrollX l \<le> scrollX l'" "0 < currentSpeed l'" "baseSpeed l' = baseSpeed l"
    using pos by simp_all
qed

lemma Level_updates_scroll:
  "0 < baseSpeed l \<Longrightarrow> 0 < currentSpeed l \<Longrightarrow>
   \<forall>step \<in> set steps. 0 \<le> fst step \<and> 1 \<le> speedMultiplier (snd step) \<Longrightarrow>
   Level_updates steps rng k l = Some (Inr (l', k')) \<Longrightarrow>
     scrollX l \<le> scrollX l' \<and> 0 < currentSpeed l' \<and> 0 < baseSpeed l'"
proof (induction steps arbitrary: k l)
  case Nil
  then show ?case by simp
next
  case (Cons step steps)
  obtain dt p where step: "step = (dt, p)" by (cases step)
  from Cons.prems(4) obtain l1 k1 where one: "Level_update dt p rng k l = Some (Inr (l1, k1))"
    and rest: "Level_updates steps rng k1 l1 = Some (Inr (l', k'))"
    by (auto simp: step split: option.splits sum.splits)
  have ok: "0 \<le> dt" "1 \<le> speedMultiplier p" using Cons.prems(3) step by simp_all
  note first = Level_update_scroll [OF Cons.prems(1,2) ok(2,1) one]
  have "scrollX l1 \<le> scrollX l' \<and> 0 < currentSpeed l' \<and> 0 < baseSpeed l'"
    using Cons.prems(1,3) first rest by (intro Cons.IH) simp_all
  with first(1) show ?case by simp
qed

lemma speedMultiplier_kept:
  "speedMultiplier new_Player = 1"
  "speedMultiplier (Player_reset q) = 1"
  "1 \<le> speedMultiplier q \<Longrightarrow> 1 \<le> speedMultiplier (applyBoost b q)"
  "1 \<le> speedMultiplier q \<Longrightarrow> 1 \<le> speedMultiplier (fst (Player_update dt inp q))"
proof -
  show "speedMultiplier new_Player = 1" by (simp add: new_Player_def)
  show "speedMultiplier (Player_reset q) = 1" by (simp add: Player_reset_def)
  show "1 \<le> speedMultiplier (applyBoost b q)" if "1 \<le> speedMultiplier q"
    using that by (auto simp: applyBoost_def Let_def split: option.splits)
  show "1 \<le> speedMultiplier (fst (Player_update dt inp q))" if "1 \<le> speedMultiplier q"
    using that
    by (cases "isAlive q") (simp_all add: Player_update_dead Player_update_speedMultiplier)
qed

text \<open>
  C9. \<open>scrollX\<close> never decreases. In a level with positive \<open>baseSpeed\<close> and
  \<open>currentSpeed\<close>, an update with \<open>dt \<ge> 0\<close> and a speed multiplier of at least 1
  leaves \<open>currentSpeed\<close> positive and does not lower \<open>scrollX\<close>; every level reached
  from \<open>Level.reset\<close> by such updates is of that kind, so its next update does not
  lower \<open>scrollX\<close> either; and the player's speed multiplier starts at 1 and stays at
  least 1 under \<open>reset\<close>, \<open>applyBoost\<close> and \<open>update\<close>.
\<close>

theorem scrollX_monotone:
  "(0 < baseSpeed l \<and> 0 < currentSpeed l \<and> 1 \<le> speedMultiplier p \<and> 0 \<le> dt
      \<and> Level_update dt p rng k l = Some (Inr (l', k')) \<longrightarrow>
      scrollX l \<le> scrollX l' \<and> 0 < currentSpeed l')
   \<and> (0 < baseSpeed l \<and> Level_reset l = Inr l0
        \<and> (\<forall>step \<in> set steps. 0 \<le> fst step \<and> 1 \<le> speedMultiplier (snd step))
        \<and> Level_updates steps rng k0 l0 = Some (Inr (l1, k1))
        \<and> 1 \<le> speedMultiplier p \<and> 0 \<le> dt
        \<and> Level_update dt p rng k1 l1 = Some (Inr (l2, k2)) \<longrightarrow>
        scrollX l0 \<le> scrollX l1 \<and> scrollX l1 \<le> scrollX l2 \<and> 0 < currentSpeed l2)
   \<and> speedMultiplier new_Player = 1
   \<and> speedMultiplier (Player_reset q) = 1
   \<and> (1 \<le> speedMultiplier q \<longrightarrow>
        1 \<le> speedMultiplier (applyBoost b q)
        \<and> 1 \<le> speedMultiplier (fst (Player_update dt inp q)))"
proof -
  have one: "scrollX l \<le> scrollX l' \<and> 0 < currentSpeed l'"
    if "0 < baseSpeed l \<and> 0 < currentSpeed l \<and> 1 \<le> speedMultiplier p \<and> 0 \<le> dt
      \<and> Level_update dt p rng k l = Some (Inr (l', k'))"
    using that Level_update_scroll [of l p dt rng k l' k'] by blast
  have run: "scrollX l0 \<le> scrollX l1 \<and> scrollX l1 \<le> scrollX l2 \<and> 0 < currentSpeed l2"
    if h: "0 < baseSpeed l \<and> Level_reset l = Inr l0
        \<and> (\<forall>step \<in> set steps. 0 \<le> fst step \<and> 1 \<le> speedMultiplier (snd step))
        \<and> Level_updates steps rng k0 l0 = Some (Inr (l1, k1))
        \<and> 1 \<le> speedMultiplier p \<and> 0 \<le> dt
        \<and> Level_update dt p rng k1 l1 = Some (Inr (l2, k2))"
  proof -
    have "templates l \<noteq> []"
      using h Level_reset_error [of l] by auto
    then have start: "0 < baseSpeed l0" "0 < currentSpeed l0"
      using Level_reset_window [of l] h by auto
    have reached: "scrollX l0 \<le> scrollX l1 \<and> 0 < currentSpeed l1 \<and> 0 < baseSpeed l1"
      using start h by (intro Level_updates_scroll [of l0 steps rng k0 l1 k1]) simp_all
    then show ?thesis
      using h Level_update_scroll [of l1 p dt rng k1 l2 k2] by blast
  qed
  show ?thesis
    using one run speedMultiplier_kept by blast
qed

theorem scrollX_monotone_witness:
  "0 < baseSpeed (new_Level SEGMENT_LIBRARY)
   \<and> Level_reset (new_Level SEGMENT_LIBRARY) = Inr fresh_level
   \<and> list_all (\<lambda>step. 0 \<le> fst step \<and> 1 \<le> speedMultiplier (snd step)) [(6::real, new_Player)]
   \<and> Level_updates [(6, new_Player)] steady_rng 0 fresh_level = Some (Inr (recycled_level, Suc 0))
   \<and> 1 \<le> speedMultiplier new_Player \<and> (0::real) \<le> 1 / 60
   \<and> Level_update (1 / 60) new_Player steady_rng (Suc 0) recycled_level
       = Some (Inr (recycled_level\<lparr>scrollX := 2166\<rparr>, Suc 0))
   \<and> scrollX fresh_level \<le> scrollX recycled_level
   \<and> scrollX recycled_level \<le> scrollX (recycled_level\<lparr>scrollX := 2166\<rparr>)
   \<and> scrollX fresh_level = 0 \<and> scrollX recycled_level = 2160"
proof -
  let ?l = "new_Level SEGMENT_LIBRARY"
  let ?steps = "[(6::real, new_Player)]"
  let ?end = "recycled_level\<lparr>scrollX := 2166\<rparr>"
  note inst = scrollX_monotone [where l = ?l and ?l0.0 = fresh_level and steps = ?steps
      and rng = steady_rng and ?k0.0 = 0 and ?l1.0 = recycled_level and ?k1.0 = "Suc 0"
      and p = new_Player and dt = "1 / 60" and ?l2.0 = ?end and ?k2.0 = "Suc 0"]
  have base: "0 < baseSpeed ?l" by (simp add: new_Level_def)
  have reset: "Level_reset ?l = Inr fresh_level" by (rule Level_reset_fresh)
  have steps: "\<forall>step \<in> set ?steps. 0 \<le> fst step \<and> 1 \<le> speedMultiplier (snd step)"
    by (simp add: new_Player_def)
  have run: "Level_updates ?steps steady_rng 0 fresh_level = Some (Inr (recycled_level, Suc 0))"
    by (simp add: first_recycle)
  have p: "1 \<le> speedMultiplier new_Player" by (simp add: new_Player_def)
  have dt: "(0::real) \<le> 1 / 60" by simp
  have next_one: "Level_update (1 / 60) new_Player steady_rng (Suc 0) recycled_level
       = Some (Inr (?end, Suc 0))"
    by (rule second_update)
  have mono: "scrollX fresh_level \<le> scrollX recycled_level"
      "scrollX recycled_level \<le> scrollX ?end"
    using inst base reset steps run p dt next_one by blast+
  have all: "list_all (\<lambda>step. 0 \<le> fst step \<and> 1 \<le> speedMultiplier (snd step)) ?steps"
    using steps by (simp add: list_all_iff)
  have scrolled: "scrollX fresh_level = 0" "scrollX recycled_level = 2160"
    by (simp_all add: recycled_level_def fresh_level_def new_Level_def)
  from base reset all run p dt next_one mono scrolled show ?thesis
    by (intro conjI)
qed

subsection \<open>Frames in which no entity is touched\<close>

lemma resolveEntity_untouched:
  assumes "untouched r off e"
  shows "resolveEntity inp dt off prev (p, r) e = (False, (p, r), updateCooldown dt e)"
proof -
  let ?e = "updateCooldown dt e"
  have orb: "e_type e = ''orb'' \<Longrightarrow> \<not> checkOrbCollision r off ?e"
    using assms by (simp add: untouched_def checkOrbCollision_updateCooldown)
  have other: "e_type e \<noteq> ''orb'' \<Longrightarrow> \<not> intersects r (entityRect off ?e)"
    using assms by (simp add: untouched_def updateCooldown_kept)
  have platform: "e_type e = ''platform'' \<Longrightarrow> resolvePlatform ?e off prev (p, r) = (p, r)"
    using other by (simp add: resolvePlatform_def)
  have spike: "e_type e = ''spike'' \<Longrightarrow> \<not> checkSpikeCollision r off ?e"
    using other by (simp add: checkSpikeCollision_def)
  have overlap: "e_type e = ''booster'' \<or> e_type e = ''portal'' \<Longrightarrow>
      \<not> checkEntityOverlap r off ?e"
    using other by (auto simp: checkEntityOverlap_def)
  show ?thesis
    using orb platform spike overlap
    by (simp add: resolveEntity_def Let_def updateCooldown_kept)
qed

lemma resolveEntities_untouched:
  "\<forall>e \<in> set es. untouched r off e \<Longrightarrow>
     resolveEntities inp dt off prev (p, r) es = (False, (p, r), map (updateCooldown dt) es)"
  by (induction es) (simp_all add: resolveEntity_untouched)

lemma resolveSegments_untouched:
  "\<forall>seg \<in> set segs. \<forall>e \<in> set (entities seg). untouched r (offset seg) e \<Longrightarrow>
     \<exists>segs'. resolveSegments inp dt prev vs ve (p, r) segs = (False, (p, r), segs')"
proof (induction segs)
  case Nil
  then show ?case by simp
next
  case (Cons seg segs)
  then obtain segs' where "resolveSegments inp dt prev vs ve (p, r) segs = (False, (p, r), segs')"
    by auto
  moreover have "resolveEntities inp dt (offset seg) prev (p, r) (entities seg)
      = (False, (p, r), map (updateCooldown dt) (entities seg))"
    using Cons.prems by (intro resolveEntities_untouched) simp
  ultimately show ?case by simp
qed

lemma resolvePlayer_untouched:
  assumes "\<forall>seg \<in> set (activeSegments l). \<forall>e \<in> set (entities seg).
      untouched (snd (preClamp p)) (offset seg) e"
  shows "fst (resolvePlayer inp dt l p) = revalidate (fst (preClamp p))"
proof -
  obtain q r where pc: "preClamp p = (q, r)" by (cases "preClamp p")
  have "\<forall>seg \<in> set (activeSegments l). \<forall>e \<in> set (entities seg). untouched r (offset seg) e"
    using assms pc by simp
  then obtain segs' where "resolveSegments inp dt (getPreviousBounds p)
      (scrollX l - recycleMargin l) (scrollX l + viewportWorldWidth l + recycleMargin l)
      (q, r) (activeSegments l) = (False, (q, r), segs')"
    using resolveSegments_untouched by blast
  then show ?thesis
    by (simp add: resolvePlayer_def Let_def pc)
qed

lemma getBounds_edges:
  "rect_bottom (getBounds p) = position_y p - halfSize p + player_size p"
  "rect_top (getBounds p) = position_y p - halfSize p"
  by (simp_all add: getBounds_def Rectangle_def rect_bottom_def rect_top_def)

lemma resolvePlayer_airborne:
  assumes "\<forall>seg \<in> set (activeSegments l). \<forall>e \<in> set (entities seg).
      untouched (getBounds p) (offset seg) e"
    and "if gravityDirection p = 1 then rect_bottom (getBounds p) < FLOOR_Y
         else CEILING_Y < rect_top (getBounds p)"
  shows "fst (resolvePlayer inp dt l p) = p"
proof -
  have pc: "preClamp p = (p, getBounds p)"
    using assms(2) by (auto simp: preClamp_def Let_def split: if_splits)
  have "revalidate p = p"
    using assms(2) by (auto simp: revalidate_def Let_def split: if_splits)
  then show ?thesis
    using resolvePlayer_untouched [of l p inp dt] assms(1) by (simp add: pc)
qed

lemma land_fields:
  "isAlive (land s p) = isAlive p"
  "jumpBuffer (land s p) = jumpBuffer p"
  "isGrounded (land s p)"
  "gravityDirection (land s p) = gravityDirection p"
  "jumpStrength (land s p) = jumpStrength p"
  "player_size (land s p) = player_size p"
  "position_x (land s p) = position_x p"
  "velocity_y (land s p) = 0"
  "position_y (land s p) = (if gravityDirection p = 1 then s - halfSize p else s + halfSize p)"
  by (simp_all add: land_def Let_def halfSize_def)

lemma land_on_floor:
  assumes "gravityDirection p = 1" and "rect_bottom (getBounds p) \<ge> FLOOR_Y"
  shows "preClamp p = (land FLOOR_Y p, getBounds (land FLOOR_Y p))"
    and "revalidate (land FLOOR_Y p) = land FLOOR_Y p"
proof -
  show "preClamp p = (land FLOOR_Y p, getBounds (land FLOOR_Y p))"
    using assms by (simp add: preClamp_def Let_def)
  have "rect_bottom (getBounds (land FLOOR_Y p)) = FLOOR_Y"
    using assms(1) by (simp add: getBounds_edges land_fields halfSize_def)
  then show "revalidate (land FLOOR_Y p) = land FLOOR_Y p"
    using assms(1) by (simp add: revalidate_def Let_def land_fields)
qed

subsection \<open>The buffered jump\<close>

lemma Player_update_motion:
  assumes "isAlive p"
  shows "velocity_y (fst (Player_update dt inp p)) =
      min (maxFallSpeed p) (max (- maxRiseSpeed p)
        (velocity_y p + gravity p * gravityDirection p *
           (if 0 < boostTimer p then gravityScaleDuringBoost p else 1) * dt))"
    and "position_y (fst (Player_update dt inp p)) =
      position_y p + velocity_y (fst (Player_update dt inp p)) * dt"
    and "anchorX (fst (Player_update dt inp p)) = anchorX p"
  using assms
  by (simp_all add: Player_update_alive_eq stage_fields integrate_def decayTimers_def
      decayBoost_def Let_def)

lemma postResolve_jump:
  assumes "isAlive p" and "jumpBuffer p > 0" and "isGrounded p \<or> coyoteTimer p > 0"
  shows "postResolve p =
     p\<lparr>velocity_y := - jumpStrength p * gravityDirection p, isGrounded := False,
       coyoteTimer := 0, jumpBuffer := 0\<rparr>"
  using assms by (auto simp: postResolve_def performJump_def)

lemma floor_jump_frame:
  assumes alive: "isAlive p" and down: "gravityDirection p = 1"
    and floor: "position_y p = FLOOR_Y - halfSize p" and still: "velocity_y p = 0"
    and physics: "0 \<le> gravity p" "0 \<le> gravityScaleDuringBoost p" "0 \<le> maxFallSpeed p"
    and press: "0 < jumpQueue inp" and dt: "0 \<le> dt" "dt < jumpBufferTime p"
    and level: "Level_update dt ((fst (Player_update dt inp p))\<lparr>position_x := scrollX l + anchorX p\<rparr>)
        rng k l = Some (Inr (l1, k1))"
    and clear: "\<forall>seg \<in> set (activeSegments l1). \<forall>e \<in> set (entities seg).
        untouched (getBounds (land FLOOR_Y (p\<lparr>position_x := scrollX l + anchorX p\<rparr>)))
          (offset seg) e"
  shows "\<exists>q l2 inp2. Game_simulate dt rng k inp p l = Some (Inr (q, l2, inp2, k1))
     \<and> velocity_y q = - jumpStrength p \<and> \<not> isGrounded q \<and> jumpBuffer q = 0"
proof -
  obtain p1 inp1 where upd: "Player_update dt inp p = (p1, inp1)"
    by (cases "Player_update dt inp p")
  then have p1: "p1 = fst (Player_update dt inp p)" by simp
  define p2 where "p2 = p1\<lparr>position_x := scrollX l + anchorX p1\<rparr>"
  have anchor: "anchorX p1 = anchorX p"
    unfolding p1 using alive by (rule Player_update_motion)
  have kept: "isAlive p2" "gravityDirection p2 = 1" "jumpStrength p2 = jumpStrength p"
      "player_size p2 = player_size p" "position_x p2 = scrollX l + anchorX p"
    using alive down anchor
    by (simp_all add: p2_def p1 Player_update_alive Player_update_kept)
  have buffer: "0 < jumpBuffer p2"
    using alive press dt by (simp add: p2_def p1 Player_update_jumpBuffer)
  have "0 \<le> gravity p * gravityDirection p *
      (if 0 < boostTimer p then gravityScaleDuringBoost p else 1) * dt"
    using physics dt(1) down by simp
  then have "0 \<le> velocity_y p1"
    unfolding p1 Player_update_motion(1) [OF alive] using physics(3) still by simp
  then have "0 \<le> velocity_y p1 * dt" using dt(1) by simp
  moreover have "position_y p2 = position_y p + velocity_y p1 * dt"
    using Player_update_motion(2) [OF alive, of dt inp] by (simp add: p2_def p1)
  ultimately have "FLOOR_Y \<le> rect_bottom (getBounds p2)"
    using floor kept(4) by (simp add: getBounds_edges halfSize_def)
  note landed = land_on_floor [OF kept(2) this]
  have same: "getBounds (land FLOOR_Y p2)
      = getBounds (land FLOOR_Y (p\<lparr>position_x := scrollX l + anchorX p\<rparr>))"
    using kept down by (simp add: getBounds_def land_fields halfSize_def)
  have "fst (resolvePlayer inp1 dt l1 p2) = revalidate (fst (preClamp p2))"
    using clear by (intro resolvePlayer_untouched) (simp add: landed(1) same)
  then have resolved: "fst (resolvePlayer inp1 dt l1 p2) = land FLOOR_Y p2"
    by (simp add: landed)
  have jump: "postResolve (land FLOOR_Y p2) =
     (land FLOOR_Y p2)\<lparr>velocity_y := - jumpStrength (land FLOOR_Y p2)
         * gravityDirection (land FLOOR_Y p2),
       isGrounded := False, coyoteTimer := 0, jumpBuffer := 0\<rparr>"
    using kept(1) buffer by (intro postResolve_jump) (simp_all add: land_fields)
  have lvl: "Level_update dt p2 rng k l = Some (Inr (l1, k1))"
    using level by (simp add: p2_def p1 Player_update_motion(3) [OF alive])
  obtain p3 l2 where res: "resolvePlayer inp1 dt l1 p2 = (p3, l2)"
    by (cases "resolvePlayer inp1 dt l1 p2")
  with resolved have p3: "p3 = land FLOOR_Y p2" by simp
  have "Game_simulate dt rng k inp p l
      = Some (Inr (postResolve p3, l2, finalizeFrame inp1, k1))"
    by (simp add: Game_simulate_def upd Let_def p2_def [symmetric] lvl res)
  moreover have "velocity_y (postResolve p3) = - jumpStrength p"
      "\<not> isGrounded (postResolve p3)" "jumpBuffer (postResolve p3) = 0"
    unfolding p3 jump using kept by (simp_all add: land_fields)
  ultimately show ?thesis by blast
qed

text \<open>
  C1. For a living player, \<open>Player.postResolve\<close> with \<open>jumpBuffer > 0\<close> and
  (\<open>isGrounded\<close> or \<open>coyoteTimer > 0\<close>) consumes the buffer, sets
  \<open>velocity.y = -jumpStrength * gravityDirection\<close> and clears \<open>isGrounded\<close> and
  \<open>coyoteTimer\<close>. In particular, a player with gravity direction +1 standing on the
  floor who presses jump ends the frame (update, scroll, resolve with no entity touched,
  post-resolve) with \<open>velocity.y = -jumpStrength\<close> and \<open>isGrounded = false\<close>.
\<close>

theorem postResolve_buffered_jump:
  "(isAlive p \<and> jumpBuffer p > 0 \<and> (isGrounded p \<or> coyoteTimer p > 0) \<longrightarrow>
      jumpBuffer (postResolve p) = 0
      \<and> velocity_y (postResolve p) = - jumpStrength p * gravityDirection p
      \<and> \<not> isGrounded (postResolve p)
      \<and> coyoteTimer (postResolve p) = 0
      \<and> (gravityDirection p = 1 \<longrightarrow> velocity_y (postResolve p) = - jumpStrength p))
   \<and> (isAlive p \<and> gravityDirection p = 1
        \<and> position_y p = FLOOR_Y - halfSize p \<and> velocity_y p = 0
        \<and> 0 \<le> gravity p \<and> 0 \<le> gravityScaleDuringBoost p \<and> 0 \<le> maxFallSpeed p
        \<and> 0 < jumpQueue inp \<and> 0 \<le> dt \<and> dt < jumpBufferTime p
        \<and> Level_update dt
             ((fst (Player_update dt inp p))\<lparr>position_x := scrollX l + anchorX p\<rparr>)
             rng k l = Some (Inr (l1, k1))
        \<and> (\<forall>seg \<in> set (activeSegments l1). \<forall>e \<in> set (entities seg).
             untouched (getBounds (land FLOOR_Y (p\<lparr>position_x := scrollX l + anchorX p\<rparr>)))
               (offset seg) e) \<longrightarrow>
        (\<exists>q l2 inp2. Game_simulate dt rng k inp p l = Some (Inr (q, l2, inp2, k1))
           \<and> velocity_y q = - jumpStrength p \<and> \<not> isGrounded q \<and> jumpBuffer q = 0))"
proof -
  have general: "jumpBuffer (postResolve p) = 0
      \<and> velocity_y (postResolve p) = - jumpStrength p * gravityDirection p
      \<and> \<not> isGrounded (postResolve p)
      \<and> coyoteTimer (postResolve p) = 0
      \<and> (gravityDirection p = 1 \<longrightarrow> velocity_y (postResolve p) = - jumpStrength p)"
    if "isAlive p \<and> jumpBuffer p > 0 \<and> (isGrounded p \<or> coyoteTimer p > 0)"
    using that by (auto simp: postResolve_def performJump_def)
  have frame: "\<exists>q l2 inp2. Game_simulate dt rng k inp p l = Some (Inr (q, l2, inp2, k1))
           \<and> velocity_y q = - jumpStrength p \<and> \<not> isGrounded q \<and> jumpBuffer q = 0"
    if h: "isAlive p \<and> gravityDirection p = 1
        \<and> position_y p = FLOOR_Y - halfSize p \<and> velocity_y p = 0
        \<and> 0 \<le> gravity p \<and> 0 \<le> gravityScaleDuringBoost p \<and> 0 \<le> maxFallSpeed p
        \<and> 0 < jumpQueue inp \<and> 0 \<le> dt \<and> dt < jumpBufferTime p
        \<and> Level_update dt
             ((fst (Player_update dt inp p))\<lparr>position_x := scrollX l + anchorX p\<rparr>)
             rng k l = Some (Inr (l1, k1))
        \<and> (\<forall>seg \<in> set (activeSegments l1). \<forall>e \<in> set (entities seg).
             untouched (getBounds (land FLOOR_Y (p\<lparr>position_x := scrollX l + anchorX p\<rparr>)))
               (offset seg) e)"
    using h by (intro floor_jump_frame) blast+
  from general frame show ?thesis by blast
qed

lemma start_frame_level:
  "Level_update (1 / 60)
     ((fst (Player_update (1 / 60) jump_pressed (player_at 260 568)))
        \<lparr>position_x := scrollX fresh_level + anchorX (player_at 260 568)\<rparr>)
     steady_rng 0 fresh_level
   = Some (Inr (fresh_level\<lparr>scrollX := 6\<rparr>, 0))"
proof -
  let ?p = "(fst (Player_update (1 / 60) jump_pressed (player_at 260 568)))
        \<lparr>position_x := scrollX fresh_level + anchorX (player_at 260 568)\<rparr>"
  have alive: "isAlive (player_at 260 568)"
    by (simp add: player_at_def new_Player_def)
  have sm: "speedMultiplier ?p = 1"
    using alive
    by (simp add: Player_update_speedMultiplier) (simp add: player_at_def new_Player_def)
  have speed: "currentSpeed fresh_level
      + (baseSpeed fresh_level * speedMultiplier ?p - currentSpeed fresh_level)
          * (1 - exp (- (1 / 60) * 6)) = 360"
    unfolding sm by (simp add: fresh_level_def new_Level_def)
  have threshold: "scrollX fresh_level + 360 * (1 / 60) - recycleMargin fresh_level = - 634"
    by (simp add: fresh_level_def new_Level_def)
  have loop: "recycle (templates fresh_level) (- 634) steady_rng 0 (activeSegments fresh_level)
      = Some (Inr (activeSegments fresh_level, 0))"
    by (rule recycle_stop) (simp add: fresh_level_def library_segment_fields library_widths)
  show ?thesis
    unfolding Level_update_Inr speed threshold loop
    by (simp add: fresh_level_def new_Level_def)
qed

lemma start_bounds:
  "getBounds (land FLOOR_Y ((player_at 260 568)
      \<lparr>position_x := scrollX fresh_level + anchorX (player_at 260 568)\<rparr>))
   = Rectangle 228 536 64 64"
  by (simp add: getBounds_def land_def Let_def halfSize_def player_at_def new_Player_def
      fresh_level_def new_Level_def FLOOR_Y_def WORLD_HEIGHT_def PLAYER_SIZE_def)

lemma start_clear:
  "\<forall>seg \<in> set (activeSegments (fresh_level\<lparr>scrollX := 6\<rparr>)). \<forall>e \<in> set (entities seg).
     untouched (Rectangle 228 536 64 64) (offset seg) e"
  by (simp add: fresh_level_def library_segment_def LevelSegment_reset_def new_LevelSegment_def
      SEGMENT_LIBRARY_def new_SegmentEntity_def SegmentEntity_reset_def platform_bp_def
      spike_bp_def booster_bp_def orb_bp_def portal_bp_def rect_bp_def nullish_def
      untouched_def checkOrbCollision_def intersectsRect_def intersects_def entityRect_def
      Rectangle_def rect_left_def rect_right_def rect_top_def rect_bottom_def Let_def
      FLOOR_Y_def CEILING_Y_def WORLD_HEIGHT_def)

theorem postResolve_buffered_jump_witness:
  "isAlive ((land FLOOR_Y new_Player)\<lparr>jumpBuffer := 0.12\<rparr>)
   \<and> 0 < jumpBuffer ((land FLOOR_Y new_Player)\<lparr>jumpBuffer := 0.12\<rparr>)
   \<and> isGrounded ((land FLOOR_Y new_Player)\<lparr>jumpBuffer := 0.12\<rparr>)
   \<and> velocity_y (postResolve ((land FLOOR_Y new_Player)\<lparr>jumpBuffer := 0.12\<rparr>)) = - 900
   \<and> \<not> isGrounded (postResolve ((land FLOOR_Y new_Player)\<lparr>jumpBuffer := 0.12\<rparr>))
   \<and> jumpBuffer (postResolve ((land FLOOR_Y new_Player)\<lparr>jumpBuffer := 0.12\<rparr>)) = 0
   \<and> position_y (player_at 260 568) = FLOOR_Y - halfSize (player_at 260 568)
   \<and> 0 < jumpQueue jump_pressed
   \<and> (\<exists>q l2 inp2.
         Game_simulate (1 / 60) steady_rng 0 jump_pressed (player_at 260 568) fresh_level
           = Some (Inr (q, l2, inp2, 0))
         \<and> velocity_y q = - 900 \<and> \<not> isGrounded q \<and> jumpBuffer q = 0)"
proof -
  let ?g = "(land FLOOR_Y new_Player)\<lparr>jumpBuffer := 0.12\<rparr>"
  let ?p = "player_at 260 568"
  have grounded: "isAlive ?g" "0 < jumpBuffer ?g" "isGrounded ?g" "gravityDirection ?g = 1"
      "jumpStrength ?g = 900"
    by (simp_all add: land_fields new_Player_def)
  have general: "velocity_y (postResolve ?g) = - 900" "\<not> isGrounded (postResolve ?g)"
      "jumpBuffer (postResolve ?g) = 0"
    using postResolve_buffered_jump [where p = ?g] grounded by auto
  have start: "isAlive ?p" "gravityDirection ?p = 1" "position_y ?p = FLOOR_Y - halfSize ?p"
      "velocity_y ?p = 0" "0 \<le> gravity ?p" "0 \<le> gravityScaleDuringBoost ?p"
      "0 \<le> maxFallSpeed ?p" "(1 / 60 :: real) < jumpBufferTime ?p" "jumpStrength ?p = 900"
    by (simp_all add: player_at_def new_Player_def halfSize_def FLOOR_Y_def WORLD_HEIGHT_def
        PLAYER_SIZE_def)
  have press: "0 < jumpQueue jump_pressed"
    by (simp add: jump_pressed_def handleJumpPress_def no_input_def)
  have clear: "\<forall>seg \<in> set (activeSegments (fresh_level\<lparr>scrollX := 6\<rparr>)).
      \<forall>e \<in> set (entities seg).
        untouched (getBounds (land FLOOR_Y (?p\<lparr>position_x := scrollX fresh_level + anchorX ?p\<rparr>)))
          (offset seg) e"
    unfolding start_bounds by (rule start_clear)
  have "\<exists>q l2 inp2.
         Game_simulate (1 / 60) steady_rng 0 jump_pressed ?p fresh_level
           = Some (Inr (q, l2, inp2, 0))
         \<and> velocity_y q = - jumpStrength ?p \<and> \<not> isGrounded q \<and> jumpBuffer q = 0"
    using postResolve_buffered_jump [where p = ?p and inp = jump_pressed and dt = "1 / 60"
        and l = fresh_level and rng = steady_rng and k = 0 and ?l1.0 = "fresh_level\<lparr>scrollX := 6\<rparr>"
        and ?k1.0 = 0]
      start(1-8) press start_frame_level clear
    by simp
  then have frame: "\<exists>q l2 inp2.
         Game_simulate (1 / 60) steady_rng 0 jump_pressed ?p fresh_level
           = Some (Inr (q, l2, inp2, 0))
         \<and> velocity_y q = - 900 \<and> \<not> isGrounded q \<and> jumpBuffer q = 0"
    unfolding start(9) .
  from grounded(1-3) general start(3) press frame show ?thesis
    by (intro conjI)
qed

subsection \<open>Coyote time\<close>

lemma postResolve_idle: "jumpBuffer p \<le> 0 \<Longrightarrow> postResolve p = p"
  by (simp add: postResolve_def)

lemma quiet_frame:
  assumes "isAlive p" and "jumpBuffer p = 0" and "0 \<le> dt" and "jumpQueue inp = 0"
  shows "postResolve (fst (Player_update dt inp p)) = fst (Player_update dt inp p)"
    and "jumpBuffer (fst (Player_update dt inp p)) = 0"
    and "coyoteTimer p - dt \<le> coyoteTimer (fst (Player_update dt inp p))"
proof -
  show jb: "jumpBuffer (fst (Player_update dt inp p)) = 0"
    using assms by (simp add: Player_update_jumpBuffer)
  then show "postResolve (fst (Player_update dt inp p)) = fst (Player_update dt inp p)"
    by (simp add: postResolve_idle)
  show "coyoteTimer p - dt \<le> coyoteTimer (fst (Player_update dt inp p))"
    using assms(1) by (simp add: Player_update_coyoteTimer)
qed

lemma free_frames_quiet:
  "isAlive p \<Longrightarrow> jumpBuffer p = 0 \<Longrightarrow>
   \<forall>step \<in> set steps. 0 \<le> fst step \<and> jumpQueue (snd step) = 0 \<Longrightarrow>
     isAlive (free_frames steps p)
     \<and> jumpBuffer (free_frames steps p) = 0
     \<and> isGrounded (free_frames steps p) = isGrounded p
     \<and> gravityDirection (free_frames steps p) = gravityDirection p
     \<and> jumpStrength (free_frames steps p) = jumpStrength p
     \<and> jumpBufferTime (free_frames steps p) = jumpBufferTime p
     \<and> coyoteTimer p - sum_list (map fst steps) \<le> coyoteTimer (free_frames steps p)"
proof (induction steps arbitrary: p)
  case Nil
  then show ?case by simp
next
  case (Cons step steps)
  obtain dt inp where step: "step = (dt, inp)" by (cases step)
  let ?q = "fst (Player_update dt inp p)"
  have ok: "0 \<le> dt" "jumpQueue inp = 0" using Cons.prems(3) step by simp_all
  note frame = quiet_frame [OF Cons.prems(1,2) ok]
  have alive: "isAlive ?q" using Cons.prems(1) by (simp add: Player_update_alive)
  have rest: "\<forall>step \<in> set steps. 0 \<le> fst step \<and> jumpQueue (snd step) = 0"
    using Cons.prems(3) by simp
  have run: "free_frames (step # steps) p = free_frames steps ?q"
    by (simp add: step frame(1))
  have kept: "jumpBufferTime ?q = jumpBufferTime p"
    using Cons.prems(1)
    by (cases "isAlive p") (simp_all add: Player_update_alive_eq stage_fields
        integrate_def decayTimers_def decayBoost_def Let_def)
  from Cons.IH [OF alive frame(2) rest] frame(3) kept show ?case
    unfolding run by (simp add: Player_update_kept step)
qed

text \<open>
  C7. A player lands on a platform and then stays in the air for some frames without a
  jump press, the resolver touching nothing (a frame is then \<open>Player.update\<close> followed
  by \<open>Player.postResolve\<close>, since \<open>resolvePlayer\<close> returns an airborne player that
  touches no entity unchanged). A jump pressed in a frame that ends no later than
  \<open>coyoteTime\<close> seconds after the landing is applied by \<open>Player.postResolve\<close> in
  that frame as the grounded jump, with \<open>jumpStrength\<close>; if the frame ends before
  \<open>coyoteTime\<close> has passed, the coyote timer is still running at that point.
\<close>

theorem coyote_jump:
  "(isAlive p0 \<and> jumpBuffer p0 = 0
      \<and> (\<forall>step \<in> set steps. 0 \<le> fst step \<and> jumpQueue (snd step) = 0)
      \<and> 0 < jumpQueue inp \<and> 0 \<le> dt \<and> dt < jumpBufferTime p0
      \<and> sum_list (map fst steps) + dt \<le> coyoteTime p0 \<longrightarrow>
      velocity_y (postResolve (fst (Player_update dt inp (free_frames steps (land surfaceY p0)))))
        = - jumpStrength p0 * gravityDirection p0
      \<and> \<not> isGrounded
            (postResolve (fst (Player_update dt inp (free_frames steps (land surfaceY p0)))))
      \<and> jumpBuffer
            (postResolve (fst (Player_update dt inp (free_frames steps (land surfaceY p0))))) = 0
      \<and> (sum_list (map fst steps) + dt < coyoteTime p0 \<longrightarrow>
            0 < coyoteTimer (fst (Player_update dt inp (free_frames steps (land surfaceY p0))))))
   \<and> ((\<forall>seg \<in> set (activeSegments l). \<forall>e \<in> set (entities seg).
          untouched (getBounds q) (offset seg) e)
        \<and> (if gravityDirection q = 1 then rect_bottom (getBounds q) < FLOOR_Y
            else CEILING_Y < rect_top (getBounds q)) \<longrightarrow>
        fst (resolvePlayer inp dt l q) = q)"
proof -
  have jump: "velocity_y (postResolve (fst (Player_update dt inp (free_frames steps (land surfaceY p0)))))
        = - jumpStrength p0 * gravityDirection p0
      \<and> \<not> isGrounded
            (postResolve (fst (Player_update dt inp (free_frames steps (land surfaceY p0)))))
      \<and> jumpBuffer
            (postResolve (fst (Player_update dt inp (free_frames steps (land surfaceY p0))))) = 0
      \<and> (sum_list (map fst steps) + dt < coyoteTime p0 \<longrightarrow>
            0 < coyoteTimer (fst (Player_update dt inp (free_frames steps (land surfaceY p0)))))"
    if h: "isAlive p0 \<and> jumpBuffer p0 = 0
      \<and> (\<forall>step \<in> set steps. 0 \<le> fst step \<and> jumpQueue (snd step) = 0)
      \<and> 0 < jumpQueue inp \<and> 0 \<le> dt \<and> dt < jumpBufferTime p0
      \<and> sum_list (map fst steps) + dt \<le> coyoteTime p0"
  proof -
    let ?p = "land surfaceY p0"
    let ?a = "free_frames steps ?p"
    let ?q = "fst (Player_update dt inp ?a)"
    have landed: "isAlive ?p" "jumpBuffer ?p = 0" "isGrounded ?p"
        "coyoteTimer ?p = coyoteTime p0" "jumpBufferTime ?p = jumpBufferTime p0"
      using h by (simp_all add: land_def Let_def)
    have air: "isAlive ?a" "jumpBuffer ?a = 0" "isGrounded ?a"
        "gravityDirection ?a = gravityDirection p0" "jumpStrength ?a = jumpStrength p0"
        "jumpBufferTime ?a = jumpBufferTime p0"
        "coyoteTime p0 - sum_list (map fst steps) \<le> coyoteTimer ?a"
      using free_frames_quiet [OF landed(1,2), of steps] h landed(3,4,5)
      by (simp_all add: land_fields)
    have press: "isAlive ?q" "0 < jumpBuffer ?q" "isGrounded ?q"
        "gravityDirection ?q = gravityDirection p0" "jumpStrength ?q = jumpStrength p0"
        "coyoteTimer ?a - dt \<le> coyoteTimer ?q"
      using air h
      by (simp_all add: Player_update_alive Player_update_jumpBuffer Player_update_kept
          Player_update_coyoteTimer)
    have "postResolve ?q = ?q\<lparr>velocity_y := - jumpStrength ?q * gravityDirection ?q,
        isGrounded := False, coyoteTimer := 0, jumpBuffer := 0\<rparr>"
      using press(1,2,3) by (intro postResolve_jump) simp_all
    moreover have "0 < coyoteTimer ?q" if "sum_list (map fst steps) + dt < coyoteTime p0"
      using that air(7) press(6) by linarith
    ultimately show ?thesis
      using press(4,5) by simp
  qed
  have airborne: "fst (resolvePlayer inp dt l q) = q"
    if "(\<forall>seg \<in> set (activeSegments l). \<forall>e \<in> set (entities seg).
          untouched (getBounds q) (offset seg) e)
        \<and> (if gravityDirection q = 1 then rect_bottom (getBounds q) < FLOOR_Y
            else CEILING_Y < rect_top (getBounds q))"
    using that by (intro resolvePlayer_airborne) blast+
  from jump airborne show ?thesis by blast
qed

lemma midair_clear:
  "\<forall>seg \<in> set (activeSegments fresh_level). \<forall>e \<in> set (entities seg).
     untouched (Rectangle 228 268 64 64) (offset seg) e"
  by (simp add: fresh_level_def library_segment_def LevelSegment_reset_def new_LevelSegment_def
      SEGMENT_LIBRARY_def new_SegmentEntity_def SegmentEntity_reset_def platform_bp_def
      spike_bp_def booster_bp_def orb_bp_def portal_bp_def rect_bp_def nullish_def
      untouched_def checkOrbCollision_def intersectsRect_def intersects_def entityRect_def
      Rectangle_def rect_left_def rect_right_def rect_top_def rect_bottom_def Let_def
      FLOOR_Y_def CEILING_Y_def WORLD_HEIGHT_def)

theorem coyote_jump_witness:
  "isAlive (player_at 380 408) \<and> jumpBuffer (player_at 380 408) = 0
   \<and> list_all (\<lambda>step. 0 \<le> fst step \<and> jumpQueue (snd step) = 0)
        [(1 / 60 :: real, no_input), (1 / 60, no_input)]
   \<and> 0 < jumpQueue jump_pressed
   \<and> (1 / 60 :: real) < jumpBufferTime (player_at 380 408)
   \<and> sum_list (map fst [(1 / 60 :: real, no_input), (1 / 60, no_input)]) + 1 / 60
        < coyoteTime (player_at 380 408)
   \<and> velocity_y (postResolve (fst (Player_update (1 / 60) jump_pressed
        (free_frames [(1 / 60, no_input), (1 / 60, no_input)] (land 440 (player_at 380 408))))))
        = - 900
   \<and> 0 < coyoteTimer (fst (Player_update (1 / 60) jump_pressed
        (free_frames [(1 / 60, no_input), (1 / 60, no_input)] (land 440 (player_at 380 408)))))
   \<and> rect_bottom (getBounds (player_at 260 300)) < FLOOR_Y
   \<and> fst (resolvePlayer jump_pressed (1 / 60) fresh_level (player_at 260 300))
        = player_at 260 300"
proof -
  let ?p0 = "player_at 380 408"
  let ?steps = "[(1 / 60 :: real, no_input), (1 / 60, no_input)]"
  let ?q = "player_at 260 300"
  note inst = coyote_jump [where ?p0.0 = ?p0 and steps = ?steps and inp = jump_pressed
      and dt = "1 / 60" and surfaceY = 440 and l = fresh_level and q = ?q]
  have start: "isAlive ?p0" "jumpBuffer ?p0 = 0" "(1 / 60 :: real) < jumpBufferTime ?p0"
      "jumpStrength ?p0 = 900" "gravityDirection ?p0 = 1" "coyoteTime ?p0 = 0.08"
    by (simp_all add: player_at_def new_Player_def)
  have quiet: "\<forall>step \<in> set ?steps. 0 \<le> fst step \<and> jumpQueue (snd step) = 0"
    by (simp add: no_input_def)
  have press: "0 < jumpQueue jump_pressed"
    by (simp add: jump_pressed_def handleJumpPress_def no_input_def)
  have within: "sum_list (map fst ?steps) + 1 / 60 < coyoteTime ?p0"
    by (simp add: start(6))
  have jump: "velocity_y (postResolve (fst (Player_update (1 / 60) jump_pressed
        (free_frames ?steps (land 440 ?p0))))) = - jumpStrength ?p0 * gravityDirection ?p0"
    and timer: "0 < coyoteTimer (fst (Player_update (1 / 60) jump_pressed
        (free_frames ?steps (land 440 ?p0))))"
    using inst start(1-3) quiet press within by auto
  have bounds: "getBounds ?q = Rectangle 228 268 64 64"
    by (simp add: getBounds_def halfSize_def player_at_def new_Player_def PLAYER_SIZE_def)
  have low: "rect_bottom (getBounds ?q) < FLOOR_Y"
    by (simp add: bounds Rectangle_def rect_bottom_def FLOOR_Y_def WORLD_HEIGHT_def)
  have down: "gravityDirection ?q = 1"
    by (simp add: player_at_def new_Player_def)
  have clear: "\<forall>seg \<in> set (activeSegments fresh_level). \<forall>e \<in> set (entities seg).
      untouched (getBounds ?q) (offset seg) e"
    unfolding bounds by (rule midair_clear)
  have still: "fst (resolvePlayer jump_pressed (1 / 60) fresh_level ?q) = ?q"
    using inst clear low down by simp
  have all: "list_all (\<lambda>step. 0 \<le> fst step \<and> jumpQueue (snd step) = 0) ?steps"
    using quiet by (simp add: list_all_iff)
  have jump': "velocity_y (postResolve (fst (Player_update (1 / 60) jump_pressed
        (free_frames ?steps (land 440 ?p0))))) = - 900"
    unfolding jump start(4,5) by simp
  from start(1,2) all press start(3) within jump' timer low still show ?thesis
    by (intro conjI)
qed

end
